theory Spec2Isabelle
  imports Complex_Main "HOL-Library.Signed_Division"
begin

unbundle bit_operations_syntax

section \<open>The raster encoder (src/utils.js, convertCanvasToEscPos)\<close>

text \<open>
  An \<open>ImageData\<close> (or \<open>ImageDataLike\<close>) object: \<open>width\<close>, \<open>height\<close> and the RGBA
  array \<open>data\<close>. JavaScript numbers are modelled as \<open>int\<close> (so \<open>-0\<close> is \<open>0\<close>);
  the encoder only ever adds, multiplies, divides by 8 or 256 and compares them.
\<close>

record imageData =
  width :: int
  height :: int
  data :: "int list"

text \<open>
  \<open>pixels[i]\<close>: an array read outside \<open>[0, length)\<close> yields \<open>undefined\<close> in JavaScript
  (here \<open>None\<close>); it neither raises nor extends the array.
\<close>

definition js_index :: "int list \<Rightarrow> int \<Rightarrow> int option" where
  "js_index xs i = (if 0 \<le> i \<and> i < int (length xs) then Some (xs ! nat i) else None)"

text \<open>\<open>a + b\<close> on numbers: \<open>undefined\<close> turns the sum into \<open>NaN\<close> (here \<open>None\<close>).\<close>

definition js_add :: "int option \<Rightarrow> int option \<Rightarrow> int option" where
  "js_add a b = (case a of None \<Rightarrow> None
                 | Some m \<Rightarrow> (case b of None \<Rightarrow> None | Some n \<Rightarrow> Some (m + n)))"

text \<open>\<open>a < b\<close>: every comparison with \<open>NaN\<close> is false.\<close>

definition js_lt :: "int option \<Rightarrow> int \<Rightarrow> bool" where
  "js_lt a t = (case a of None \<Rightarrow> False | Some m \<Rightarrow> m < t)"

text \<open>\<open>Math.ceil(width / 8)\<close> on an integer \<open>width\<close>.\<close>

definition ceil_div8 :: "int \<Rightarrow> int" where
  "ceil_div8 w = - ((- w) div 8)"

definition paddedWidth :: "int \<Rightarrow> int" where
  "paddedWidth w = ceil_div8 w * 8"

text \<open>\<open>paddedWidth / 8\<close>: the division is exact, \<open>paddedWidth\<close> being a multiple of 8.\<close>

definition xBytes :: "int \<Rightarrow> int" where
  "xBytes w = paddedWidth w div 8"

text \<open>
  The encoder's state while it runs: the \<open>command\<close> array built so far, and a log of
  every index at which \<open>pixels\<close> has been read (the log is not in the source; it
  records the source's three reads \<open>pixels[pxIndex]\<close>, \<open>pixels[pxIndex + 1]\<close>,
  \<open>pixels[pxIndex + 2]\<close> in the order they happen).
\<close>

text \<open>
  The innermost loop, \<open>for (let bit = 0; bit < 8; bit++)\<close>, on the pair of the current
  \<open>byte\<close> and the read log (\<open>bt\<close> is the source's \<open>bit\<close>).
\<close>

function bit_loop :: "imageData \<Rightarrow> int \<Rightarrow> int \<Rightarrow> int \<Rightarrow> nat \<Rightarrow> int \<times> int list \<Rightarrow> int \<times> int list" where
  "bit_loop img thr y x bt (byte, rd) =
     (if bt < 8 then
        (let pixelX = x * 8 + int bt in
         if pixelX \<ge> width img then bit_loop img thr y x (bt + 1) (byte, rd)
         else
           (let pxIndex = (y * width img + pixelX) * 4;
                brightness = js_add (js_add (js_index (data img) pxIndex)
                                            (js_index (data img) (pxIndex + 1)))
                                    (js_index (data img) (pxIndex + 2));
                rd' = rd @ [pxIndex, pxIndex + 1, pxIndex + 2]
            in if js_lt brightness thr
               then bit_loop img thr y x (bt + 1) (byte OR push_bit (7 - bt) 1, rd')
               else bit_loop img thr y x (bt + 1) (byte, rd')))
      else (byte, rd))"
  by pat_completeness auto
termination
  by (relation "measure (\<lambda>(img, thr, y, x, bt, s). 8 - bt)") auto

declare bit_loop.simps [simp del]

text \<open>\<open>for (let x = 0; x < xBytes; x++)\<close>: one output byte per iteration.\<close>

function x_loop :: "imageData \<Rightarrow> int \<Rightarrow> int \<Rightarrow> int \<Rightarrow> int \<Rightarrow> int list \<times> int list \<Rightarrow> int list \<times> int list" where
  "x_loop img thr xb y x (command, rd) =
     (if x < xb then
        (let (byte, rd') = bit_loop img thr y x 0 (0, rd)
         in x_loop img thr xb y (x + 1) (command @ [byte], rd'))
      else (command, rd))"
  by pat_completeness auto
termination
  by (relation "measure (\<lambda>(img, thr, xb, y, x, s). nat (xb - x))") auto

declare x_loop.simps [simp del]

text \<open>\<open>for (let y = 0; y < height; y++)\<close>.\<close>

function y_loop :: "imageData \<Rightarrow> int \<Rightarrow> int \<Rightarrow> int \<Rightarrow> int list \<times> int list \<Rightarrow> int list \<times> int list" where
  "y_loop img thr xb y s =
     (if y < height img then y_loop img thr xb (y + 1) (x_loop img thr xb y 0 s) else s)"
  by pat_completeness auto
termination
  by (relation "measure (\<lambda>(img, thr, xb, y, s). nat (height img - y))") auto

declare y_loop.simps [simp del]

text \<open>
  The whole function. \<open>%\<close> is JavaScript's remainder (the sign of the dividend,
  \<open>smod\<close>); \<open>Math.floor(n / 256)\<close> is \<open>div\<close>.
\<close>

definition encode_run :: "imageData \<Rightarrow> int \<Rightarrow> int list \<times> int list" where
  "encode_run img brightnessThreshold =
     (let xb = xBytes (width img);
          command = [0x1d, 0x76, 0x30, 0x00];
          command = command @ [xb smod 256, xb div 256];
          command = command @ [height img smod 256, height img div 256]
      in y_loop img brightnessThreshold xb 0 (command, []))"

definition convertCanvasToEscPos :: "imageData \<Rightarrow> int \<Rightarrow> int list" where
  "convertCanvasToEscPos img brightnessThreshold = fst (encode_run img brightnessThreshold)"

definition pixel_reads :: "imageData \<Rightarrow> int \<Rightarrow> int list" where
  "pixel_reads img brightnessThreshold = snd (encode_run img brightnessThreshold)"

subsection \<open>What one pixel, one byte and one row contribute\<close>

text \<open>
  The body of the innermost loop, read off the source: the brightness of the pixel at
  \<open>(pixelX, y)\<close>, the bit it gives, and the indices it reads.
\<close>

definition src_brightness :: "imageData \<Rightarrow> int \<Rightarrow> int \<Rightarrow> int option" where
  "src_brightness img y pixelX =
     (let pxIndex = (y * width img + pixelX) * 4
      in js_add (js_add (js_index (data img) pxIndex) (js_index (data img) (pxIndex + 1)))
                (js_index (data img) (pxIndex + 2)))"

definition src_bit :: "imageData \<Rightarrow> int \<Rightarrow> int \<Rightarrow> int \<Rightarrow> bool" where
  "src_bit img thr y pixelX \<longleftrightarrow> pixelX < width img \<and> js_lt (src_brightness img y pixelX) thr"

definition src_reads :: "imageData \<Rightarrow> int \<Rightarrow> int \<Rightarrow> int list" where
  "src_reads img y pixelX =
     (if pixelX \<ge> width img then []
      else (let pxIndex = (y * width img + pixelX) * 4 in [pxIndex, pxIndex + 1, pxIndex + 2]))"

text \<open>Packing bits most-significant bit first: \<open>acc\<close> holds the bits seen so far.\<close>

fun pack_msb :: "int \<Rightarrow> bool list \<Rightarrow> int" where
  "pack_msb acc [] = acc"
| "pack_msb acc (b # bs) = pack_msb (2 * acc + of_bool b) bs"

text \<open>The byte of column \<open>x\<close> in row \<open>y\<close>, and the reads made for it.\<close>

definition src_byte :: "imageData \<Rightarrow> int \<Rightarrow> int \<Rightarrow> int \<Rightarrow> int" where
  "src_byte img thr y x = pack_msb 0 (map (\<lambda>k. src_bit img thr y (x * 8 + int k)) [0..<8])"

definition byte_reads :: "imageData \<Rightarrow> int \<Rightarrow> int \<Rightarrow> int list" where
  "byte_reads img y x = concat (map (\<lambda>k. src_reads img y (x * 8 + int k)) [0..<8])"

subsection \<open>The specification's words\<close>

text \<open>The default of the parameter \<open>brightnessThreshold\<close>.\<close>

definition default_threshold :: int where
  "default_threshold = 382"

text \<open>
  The specification's pixel buffer: \<open>width > 0\<close>, \<open>height > 0\<close> and
  \<open>data.length = width * height * 4\<close>; its \<open>widthBytes = ceil(width / 8)\<close>; the sum of
  red, green and blue of a pixel; the bit of a pixel (1 iff the pixel is inside the image
  and its sum is strictly below the threshold); and the raster command: header, size
  bytes, then one packed byte per group of eight pixels, row by row. These follow the
  specification, not the source; the theorems compare the two.
\<close>

definition conformant :: "imageData \<Rightarrow> bool" where
  "conformant img \<longleftrightarrow>
     width img > 0 \<and> height img > 0 \<and> int (length (data img)) = width img * height img * 4"

definition spec_widthBytes :: "int \<Rightarrow> int" where
  "spec_widthBytes w = \<lceil>real_of_int w / 8\<rceil>"

definition spec_channel_sum :: "imageData \<Rightarrow> int \<Rightarrow> int \<Rightarrow> int" where
  "spec_channel_sum img y pixelX =
     (let i = nat ((y * width img + pixelX) * 4)
      in data img ! i + data img ! (i + 1) + data img ! (i + 2))"

definition spec_ink :: "imageData \<Rightarrow> int \<Rightarrow> int \<Rightarrow> int \<Rightarrow> bool" where
  "spec_ink img thr y pixelX \<longleftrightarrow> pixelX < width img \<and> spec_channel_sum img y pixelX < thr"

definition spec_byte :: "imageData \<Rightarrow> int \<Rightarrow> int \<Rightarrow> int \<Rightarrow> int" where
  "spec_byte img thr y x = pack_msb 0 (map (\<lambda>b. spec_ink img thr y (x * 8 + int b)) [0..<8])"

definition spec_raster :: "imageData \<Rightarrow> int \<Rightarrow> int list" where
  "spec_raster img thr =
     (let widthBytes = spec_widthBytes (width img)
      in [0x1d, 0x76, 0x30, 0x00] @
         [widthBytes mod 256, widthBytes div 256, height img mod 256, height img div 256] @
         concat (map (\<lambda>y. map (spec_byte img thr y) [0..widthBytes - 1]) [0..height img - 1]))"

text \<open>The same buffer with its alpha values (the indices 3, 7, 11, ...) replaced.\<close>

definition with_alpha :: "(nat \<Rightarrow> int) \<Rightarrow> int list \<Rightarrow> int list" where
  "with_alpha f xs = map (\<lambda>i. if i mod 4 = 3 then f i else xs ! i) [0..<length xs]"

text \<open>
  A 3x2 image: black, white and a pixel of sum 382 in row 0; a pixel of sum 381, a dark
  and a red pixel in row 1.
\<close>

definition sample_img :: imageData where
  "sample_img = \<lparr>width = 3, height = 2,
     data = [0, 0, 0, 9,  255, 255, 255, 9,  100, 100, 182, 9,
             100, 100, 181, 0,  1, 1, 1, 1,  255, 0, 0, 0]\<rparr>"


section \<open>The printer class (src/index.js, ThermalPrinter)\<close>

subsection \<open>JavaScript values, the platform and the constants\<close>

text \<open>
  A parsed JSON body, as \<open>res.json()\<close> returns it. An object is the list of its
  properties, looked up by \<open>map_of\<close>. Numbers are modelled as integers.
\<close>

datatype json =
    JNull
  | JBool bool
  | JNum int
  | JStr string
  | JArr "json list"
  | JObj "(string \<times> json) list"

text \<open>
  The values a JavaScript expression of this file can throw: \<open>new Error(message)\<close>, the
  engine's \<open>TypeError\<close>, \<open>RangeError\<close> and \<open>URIError\<close>, and the reason of a rejected
  \<open>fetch\<close>.
\<close>

datatype js_error = Error string | TypeError | RangeError | URIError | FetchRejected

text \<open>
  The network. A \<open>fetch\<close> either rejects (a network error, or an abort: the scan's probes
  are aborted by their 100 ms timer) or resolves to a response, of which the code reads
  \<open>res.ok\<close> and \<open>res.json()\<close>; \<open>body = None\<close> means that \<open>res.json()\<close> rejects. The
  model assumes that every \<open>fetch\<close> settles.

  The environment is a function from the requests issued so far, the current one last,
  to the outcome of the current one: any deterministic network, services starting and
  stopping between requests included.
\<close>

datatype response = Response (ok: bool) (body: "json option")

datatype outcome = Rejected | Resolved response

datatype request = Get string | Post string "int list"

type_synonym network = "request list \<Rightarrow> outcome"

definition fetch :: "network \<Rightarrow> request \<Rightarrow> request list \<Rightarrow> outcome \<times> request list" where
  "fetch net r tr = (net (tr @ [r]), tr @ [r])"

text \<open>
  Platform functions the file calls and whose definition is the platform's:
  \<open>new TextEncoder().encode\<close> (UTF-8), \<open>encodeURIComponent\<close> on a value (it converts
  its argument to a string first, and throws \<open>URIError\<close> on a lone surrogate), and the
  comparison \<open>v > 0\<close> where \<open>v\<close> is a string, an array or an object (it goes through
  \<open>ToPrimitive\<close> and \<open>ToNumber\<close>, and can throw \<open>TypeError\<close>). They are parameters
  of the model, and so are two limits of the engine: the greatest number of arguments a
  call with a spread, \<open>f(...xs)\<close>, accepts (a longer spread throws \<open>RangeError\<close>), and the
  greatest length of a string (building a longer one throws \<open>RangeError\<close>).
\<close>

record host =
  text_encode :: "string \<Rightarrow> int list"
  encodeURIComponent :: "json option \<Rightarrow> js_error + string"
  coerce_gt0 :: "json \<Rightarrow> js_error + bool"
  max_spread :: nat
  max_string_length :: nat


text \<open>
  The instance. An element of \<open>buffer\<close> is a number or \<open>undefined\<close> (\<open>None\<close>):
  \<open>align\<close> writes \<open>cmd[2]\<close>, which extends a shorter array and leaves holes that the
  spread pushes as \<open>undefined\<close>. \<open>driverApi\<close> is \<open>null\<close> (\<open>None\<close>) or a string.
\<close>

record ThermalPrinter =
  driverApi :: "string option"
  printerWidth :: int
  buffer :: "int option list"

definition constructor :: "int \<Rightarrow> ThermalPrinter" where
  "constructor w = \<lparr>driverApi = None, printerWidth = w, buffer = []\<rparr>"

definition default_width :: int where
  "default_width = 384"

subsection \<open>Basic commands\<close>



























subsection \<open>Execution\<close>

definition clear :: "ThermalPrinter \<Rightarrow> ThermalPrinter" where
  "clear this = this\<lparr>buffer := []\<rparr>"

text \<open>
  \<open>new Uint8Array(this.buffer)\<close>: a number is reduced modulo 256, \<open>undefined\<close> becomes 0.
\<close>

definition getBuffer :: "ThermalPrinter \<Rightarrow> int list" where
  "getBuffer this = map (\<lambda>b. case b of None \<Rightarrow> 0 | Some n \<Rightarrow> n mod 256) (buffer this)"

subsection \<open>Discovery\<close>

text \<open>The decimal digits of a port number, as the template literal prints them.\<close>

function decimal :: "nat \<Rightarrow> string" where
  "decimal n = (if n < 10 then [''0123456789'' ! n]
                else decimal (n div 10) @ [''0123456789'' ! (n mod 10)])"
  by pat_completeness auto
termination
  by (relation "measure (\<lambda>n. n)") auto

declare decimal.simps [simp del]

text \<open>A string or \<open>null\<close> inside a template literal, and as the condition of an \<open>if\<close>.\<close>

definition template :: "string option \<Rightarrow> string" where
  "template s = (case s of None \<Rightarrow> ''null'' | Some u \<Rightarrow> u)"

definition truthy :: "string option \<Rightarrow> bool" where
  "truthy s = (case s of None \<Rightarrow> False | Some u \<Rightarrow> u \<noteq> [])"

text \<open>
  \<open>v.name\<close> for the property names \<open>service\<close> and \<open>name\<close>, which no JavaScript
  prototype defines: reading a property of \<open>null\<close> throws, an object yields its own
  property or \<open>undefined\<close>, every other value yields \<open>undefined\<close>.
\<close>

fun get_field :: "json \<Rightarrow> string \<Rightarrow> js_error + json option" where
  "get_field JNull k = Inl TypeError"
| "get_field (JObj kvs) k = Inr (map_of kvs k)"
| "get_field v k = Inr None"

text \<open>
  The answer of one scan probe is a match when the response is \<open>ok\<close>, its body parses
  and \<open>data.service === "CDH-Driver"\<close>.
\<close>

definition is_match :: "outcome \<Rightarrow> bool" where
  "is_match out =
     (case out of
        Rejected \<Rightarrow> False
      | Resolved res \<Rightarrow>
          ok res \<and>
          (case body res of
             None \<Rightarrow> False
           | Some d \<Rightarrow> get_field d ''service'' = Inr (Some (JStr ''CDH-Driver''))))"

text \<open>The request of the scan's probe of one port.\<close>

definition health_url :: "nat \<Rightarrow> string" where
  "health_url port = (''http://localhost:'' @ decimal port) @ ''/health''"

definition probe :: "nat \<Rightarrow> request" where
  "probe port = Get (health_url port)"

text \<open>
  The scan, \<open>for (let port = 9123; port <= 9130; port++)\<close>. Every exception in the body
  (a rejected \<open>fetch\<close>, a rejected \<open>res.json()\<close>, the \<open>TypeError\<close> of reading
  \<open>data.service\<close> on \<open>null\<close>) is caught and the loop continues. On a match the source
  returns \<open>true\<close> and assigns nothing to the instance.
\<close>

function scan :: "network \<Rightarrow> nat \<Rightarrow> ThermalPrinter \<times> request list \<Rightarrow> bool \<times> ThermalPrinter \<times> request list" where
  "scan net port (this, tr) =
     (if port \<le> 9130 then
        (let url = ''http://localhost:'' @ decimal port;
             (out, tr') = fetch net (Get (url @ ''/health'')) tr
         in case out of
              Rejected \<Rightarrow> scan net (port + 1) (this, tr')
            | Resolved res \<Rightarrow>
                if ok res then
                  (case body res of
                     None \<Rightarrow> scan net (port + 1) (this, tr')
                   | Some d \<Rightarrow>
                       (case get_field d ''service'' of
                          Inl e \<Rightarrow> scan net (port + 1) (this, tr')
                        | Inr v \<Rightarrow>
                            if v = Some (JStr ''CDH-Driver'') then (True, this, tr')
                            else scan net (port + 1) (this, tr')))
                else scan net (port + 1) (this, tr'))
      else (False, this, tr))"
  by pat_completeness auto
termination
  by (relation "measure (\<lambda>(net, port, s). 9131 - port)") auto

declare scan.simps [simp del]

text \<open>
  \<open>findDriver\<close>. With a truthy \<open>driverApi\<close> it first pings the cached URL, with no abort
  timer: an \<open>ok\<close> answer returns \<open>true\<close>; a rejection is caught, and the handler sets
  \<open>driverApi\<close> to \<open>null\<close>; an answer that is not \<open>ok\<close> falls through with
  \<open>driverApi\<close> as it is.
\<close>

definition findDriver :: "network \<Rightarrow> ThermalPrinter \<Rightarrow> request list \<Rightarrow> bool \<times> ThermalPrinter \<times> request list" where
  "findDriver net this tr =
     (if truthy (driverApi this) then
        (let (out, tr') = fetch net (Get (template (driverApi this) @ ''/health'')) tr
         in case out of
              Rejected \<Rightarrow> scan net 9123 (this\<lparr>driverApi := None\<rparr>, tr')
            | Resolved res \<Rightarrow>
                if ok res then (True, this, tr') else scan net 9123 (this, tr'))
      else scan net 9123 (this, tr))"

subsection \<open>Printer list and printing\<close>

text \<open>
  The \<open>try\<close> block of \<open>getPrinters\<close>: a rejected \<open>fetch\<close> and a rejected \<open>res.json()\<close>
  are caught and give \<open>[]\<close>; \<open>res.ok\<close> is not read.
\<close>

definition fetch_printers :: "network \<Rightarrow> string option \<Rightarrow> request list \<Rightarrow> (js_error + json) \<times> request list" where
  "fetch_printers net apiUrl tr =
     (let (out, tr') = fetch net (Get (template apiUrl @ ''/printers'')) tr
      in case out of
           Rejected \<Rightarrow> (Inr (JArr []), tr')
         | Resolved res \<Rightarrow>
             (case body res of
                None \<Rightarrow> (Inr (JArr []), tr')
              | Some v \<Rightarrow> (Inr v, tr')))"

definition getPrinters :: "network \<Rightarrow> string option \<Rightarrow> request list \<Rightarrow> (js_error + json) \<times> request list" where
  "getPrinters net overrideUrl tr =
     (let apiUrl = overrideUrl
      in if \<not> truthy apiUrl then
           (let temp = constructor default_width;
                (found, temp, tr') = findDriver net temp tr
            in if found then fetch_printers net (driverApi temp) tr'
               else (Inr (JArr []), tr'))
         else fetch_printers net apiUrl tr)"

text \<open>
  \<open>printers.length > 0\<close> on a parsed body: \<open>null\<close> has no properties (\<open>TypeError\<close>);
  an array and a string have their length; an object has its own \<open>length\<close> property,
  if any; a number or a boolean has none. Then \<open>undefined > 0\<close> and \<open>null > 0\<close>
  are false, \<open>true > 0\<close> is true, a number is compared, and any other value is left
  to the platform.
\<close>

fun js_length :: "json \<Rightarrow> js_error + json option" where
  "js_length JNull = Inl TypeError"
| "js_length (JArr xs) = Inr (Some (JNum (int (length xs))))"
| "js_length (JStr s) = Inr (Some (JNum (int (length s))))"
| "js_length (JObj kvs) = Inr (map_of kvs ''length'')"
| "js_length v = Inr None"

fun js_gt0 :: "host \<Rightarrow> json option \<Rightarrow> js_error + bool" where
  "js_gt0 h None = Inr False"
| "js_gt0 h (Some JNull) = Inr False"
| "js_gt0 h (Some (JBool b)) = Inr b"
| "js_gt0 h (Some (JNum n)) = Inr (n > 0)"
| "js_gt0 h (Some v) = coerce_gt0 h v"

text \<open>\<open>printers[0]\<close> on a value that is not \<open>null\<close>.\<close>

fun js_first :: "json \<Rightarrow> json option" where
  "js_first (JArr xs) = (case xs of [] \<Rightarrow> None | x # _ \<Rightarrow> Some x)"
| "js_first (JStr s) = (case s of [] \<Rightarrow> None | c # _ \<Rightarrow> Some (JStr [c]))"
| "js_first (JObj kvs) = map_of kvs ''0''"
| "js_first v = None"

text \<open>
  \<open>if (printers.length > 0) printerName = printers[0].name; else throw new Error(...)\<close>.
  Reading \<open>.name\<close> of \<open>undefined\<close> or \<open>null\<close> throws \<open>TypeError\<close>.
\<close>

definition first_printer_name :: "host \<Rightarrow> json \<Rightarrow> js_error + json option" where
  "first_printer_name h printers =
     (case js_length printers of
        Inl e \<Rightarrow> Inl e
      | Inr len \<Rightarrow>
          (case js_gt0 h len of
             Inl e \<Rightarrow> Inl e
           | Inr positive \<Rightarrow>
               if positive then
                 (case js_first printers of
                    None \<Rightarrow> Inl TypeError
                  | Some p \<Rightarrow> get_field p ''name'')
               else Inl (Error ''No printer found in Windows settings.'')))"

datatype print_response = PrintResponse (success: bool)

text \<open>
  \<open>print\<close>. The result is the value the promise resolves to, or the error it rejects
  with, together with the instance and the requests issued. Inside the \<open>try\<close> block an
  error is logged and thrown again.
\<close>

definition print :: "host \<Rightarrow> network \<Rightarrow> string option \<Rightarrow> ThermalPrinter \<Rightarrow> request list \<Rightarrow>
    (js_error + print_response) \<times> ThermalPrinter \<times> request list" where
  "print h net printerName this tr =
     (let (found, this, tr) = findDriver net this tr
      in if \<not> found
         then (Inl (Error ''Cannot connect to Printer Driver. Please run the application.''),
               this, tr)
         else
           (let (name, tr) =
                  (if \<not> truthy printerName then
                     (let (printers, tr) = getPrinters net (driverApi this) tr
                      in case printers of
                           Inl e \<Rightarrow> (Inl e, tr)
                         | Inr ps \<Rightarrow> (first_printer_name h ps, tr))
                   else (Inr (map_option JStr printerName), tr))
            in case name of
                 Inl e \<Rightarrow> (Inl e, this, tr)
               | Inr printerName \<Rightarrow>
                   (let bufferData = getBuffer this
                    in case encodeURIComponent h printerName of
                         Inl e \<Rightarrow> (Inl e, this, tr)
                       | Inr encodedName \<Rightarrow>
                           (let (out, tr) =
                                  fetch net
                                    (Post (template (driverApi this) @ ''/print?printer='' @ encodedName)
                                          bufferData) tr
                            in case out of
                                 Rejected \<Rightarrow> (Inl FetchRejected, this, tr)
                               | Resolved res \<Rightarrow>
                                   if \<not> ok res then (Inl (Error ''Driver returned error''), this, tr)
                                   else (Inr (PrintResponse True), clear this, tr)))))"

subsection \<open>Samples for the closed examples\<close>


definition sample_host :: host where
  "sample_host = \<lparr>text_encode = map (\<lambda>c. int (of_char c)),
     encodeURIComponent = (\<lambda>v. case v of Some (JStr s) \<Rightarrow> Inr s | _ \<Rightarrow> Inr ''undefined''),
     coerce_gt0 = (\<lambda>v. Inr False),
     max_spread = 120000, max_string_length = 536870888\<rparr>"

text \<open>
  Sample networks: only port 9126 answers as the driver; nothing answers; every request
  is answered with a non-success status and no JSON; every request is answered as the
  driver; every request is answered with a success status and a JSON object.
  Sample instances: one holding the endpoint of port 9123, and one with a filled buffer.
\<close>

definition net9126 :: network where
  "net9126 tr =
     (case rev tr of
        [] \<Rightarrow> Rejected
      | r # _ \<Rightarrow>
          if r = Get ''http://localhost:9126/health''
          then Resolved (Response True (Some (JObj [(''service'', JStr ''CDH-Driver'')])))
          else Rejected)"

definition net_down :: network where
  "net_down tr = Rejected"

definition net_unavailable :: network where
  "net_unavailable tr = Resolved (Response False None)"

definition cached9123 :: ThermalPrinter where
  "cached9123 = (constructor default_width)\<lparr>driverApi := Some ''http://localhost:9123''\<rparr>"

definition net_up :: network where
  "net_up tr = Resolved (Response True (Some (JObj [(''service'', JStr ''CDH-Driver'')])))"

definition net_wrapped :: network where
  "net_wrapped tr = Resolved (Response True (Some (JObj [(''printers'', JArr [])])))"

definition loaded :: "ThermalPrinter \<Rightarrow> ThermalPrinter" where
  "loaded this = this\<lparr>buffer := [Some 0x1b, Some 0x40, Some 300, None]\<rparr>"

text \<open>A sample network that answers every request with a list of one printer.\<close>

definition net_printers :: network where
  "net_printers tr =
     Resolved (Response True (Some (JArr [JObj [(''name'', JStr ''thermal printer''),
                                               (''status_text'', JStr ''Ready'')]])))"


section \<open>Lemmas about the raster encoder\<close>

lemma bit_loop_step:
  "bit_loop img thr y x bt (byte, rd) =
     (if bt < 8 then
        bit_loop img thr y x (bt + 1)
          (if src_bit img thr y (x * 8 + int bt) then byte OR push_bit (7 - bt) 1 else byte,
           rd @ src_reads img y (x * 8 + int bt))
      else (byte, rd))"
  by (subst bit_loop.simps) (simp add: Let_def src_bit_def src_brightness_def src_reads_def)

lemma bit_loop_bits:
  "bt \<le> 8 \<Longrightarrow> bit (fst (bit_loop img thr y x bt s)) n \<longleftrightarrow>
     bit (fst s) n \<or> (n < 8 - bt \<and> src_bit img thr y (x * 8 + int (7 - n)))"
proof (induction "8 - bt" arbitrary: bt s)
  case 0
  then have "bt = 8" by simp
  then show ?case by (cases s) (simp add: bit_loop_step)
next
  case (Suc k)
  obtain byte rd where s: "s = (byte, rd)" by (cases s)
  from Suc.hyps(2) have lt: "bt < 8" and k: "k = 8 - (bt + 1)" by simp_all
  define byte' where "byte' = (if src_bit img thr y (x * 8 + int bt) then byte OR push_bit (7 - bt) 1 else byte)"
  have eq: "bit_loop img thr y x bt s =
      bit_loop img thr y x (bt + 1) (byte', rd @ src_reads img y (x * 8 + int bt))"
    unfolding s byte'_def using lt by (subst bit_loop_step) simp
  have IH: "bit (fst (bit_loop img thr y x (bt + 1) (byte', rd @ src_reads img y (x * 8 + int bt)))) n \<longleftrightarrow>
      bit byte' n \<or> (n < 8 - (bt + 1) \<and> src_bit img thr y (x * 8 + int (7 - n)))"
    using Suc.hyps(1)[OF k, of "(byte', rd @ src_reads img y (x * 8 + int bt))"] lt by simp
  have b': "bit byte' n \<longleftrightarrow> bit byte n \<or> (n = 7 - bt \<and> src_bit img thr y (x * 8 + int bt))"
    unfolding byte'_def by (auto simp: bit_or_iff bit_exp_iff)
  show ?case
  proof (cases "n = 7 - bt")
    case True
    then have "int (7 - n) = int bt" using lt by simp
    then show ?thesis unfolding eq IH b' using True lt by (auto simp: s)
  next
    case False
    then have "n < 8 - bt \<longleftrightarrow> n < 8 - (bt + 1)" using lt by auto
    then show ?thesis unfolding eq IH b' using False by (auto simp: s)
  qed
qed


lemma bit_loop_reads:
  "bt \<le> 8 \<Longrightarrow> snd (bit_loop img thr y x bt s) =
     snd s @ concat (map (\<lambda>k. src_reads img y (x * 8 + int k)) [bt..<8])"
proof (induction "8 - bt" arbitrary: bt s)
  case 0
  then have "bt = 8" by simp
  then show ?case by (cases s) (simp add: bit_loop_step)
next
  case (Suc k)
  obtain byte rd where s: "s = (byte, rd)" by (cases s)
  from Suc.hyps(2) have lt: "bt < 8" and k: "k = 8 - (bt + 1)" by simp_all
  have up: "[bt..<8] = bt # [bt + 1..<8]" using lt by (simp add: upt_conv_Cons)
  show ?case
    unfolding s using lt Suc.hyps(1)[OF k]
    by (subst bit_loop_step) (simp add: up)
qed

lemma bit_double_of_bool:
  "bit (2 * acc + of_bool b :: int) m \<longleftrightarrow> (if m = 0 then b else bit acc (m - 1))"
proof (cases m)
  case 0
  then show ?thesis by (simp add: bit_0)
next
  case (Suc j)
  have "(2 * acc + of_bool b) div 2 = acc" by (cases b) simp_all
  then show ?thesis using Suc by (simp add: bit_Suc)
qed

lemma bit_pack_msb:
  "bit (pack_msb acc bs) n \<longleftrightarrow>
     (if n < length bs then bs ! (length bs - 1 - n) else bit acc (n - length bs))"
proof (induction bs arbitrary: acc)
  case Nil
  then show ?case by simp
next
  case (Cons b bs)
  show ?case
  proof (cases "n < length bs")
    case True
    then show ?thesis using Cons.IH[of "2 * acc + of_bool b"] by (simp add: nth_Cons')
  next
    case False
    then show ?thesis
      using Cons.IH[of "2 * acc + of_bool b"]
      by (auto simp: bit_double_of_bool nth_Cons')
  qed
qed

lemma bit_src_byte:
  "bit (src_byte img thr y x) n \<longleftrightarrow> n < 8 \<and> src_bit img thr y (x * 8 + int (7 - n))"
proof (cases "n < 8")
  case True
  then have "[0..<8] ! (7 - n) = 7 - n" using nth_upt[of 0 "7 - n" 8] by simp
  then show ?thesis unfolding src_byte_def bit_pack_msb using True by simp
next
  case False
  then show ?thesis unfolding src_byte_def bit_pack_msb by simp
qed

lemma bit_loop_byte: "fst (bit_loop img thr y x 0 (0, rd)) = src_byte img thr y x"
proof (rule bit_eqI)
  fix n
  show "bit (fst (bit_loop img thr y x 0 (0, rd))) n \<longleftrightarrow> bit (src_byte img thr y x) n"
    using bit_loop_bits[of 0 img thr y x "(0, rd)" n] by (simp add: bit_src_byte)
qed

lemma bit_loop_run:
  "bit_loop img thr y x 0 (0, rd) = (src_byte img thr y x, rd @ byte_reads img y x)"
  using bit_loop_byte[of img thr y x rd] bit_loop_reads[of 0 img thr y x "(0, rd)"]
  by (simp add: byte_reads_def prod_eq_iff)

lemma x_loop_run:
  "x_loop img thr xb y x (command, rd) =
     (command @ map (src_byte img thr y) [x..xb - 1],
      rd @ concat (map (byte_reads img y) [x..xb - 1]))"
proof (induction "nat (xb - x)" arbitrary: x command rd)
  case 0
  then have "\<not> x < xb" by simp
  then show ?case by (subst x_loop.simps) simp
next
  case (Suc k)
  then have lt: "x < xb" and k: "k = nat (xb - (x + 1))" by simp_all
  have up: "[x..xb - 1] = x # [x + 1..xb - 1]" using lt by (simp add: upto_rec1)
  show ?case
    using lt Suc.hyps(1)[OF k]
    by (subst x_loop.simps) (simp add: bit_loop_run up)
qed

lemma y_loop_run:
  "y_loop img thr xb y (command, rd) =
     (command @ concat (map (\<lambda>y. map (src_byte img thr y) [0..xb - 1]) [y..height img - 1]),
      rd @ concat (map (\<lambda>y. concat (map (byte_reads img y) [0..xb - 1])) [y..height img - 1]))"
proof (induction "nat (height img - y)" arbitrary: y command rd)
  case 0
  then have "\<not> y < height img" by simp
  then show ?case by (subst y_loop.simps) simp
next
  case (Suc k)
  then have lt: "y < height img" and k: "k = nat (height img - (y + 1))" by simp_all
  have up: "[y..height img - 1] = y # [y + 1..height img - 1]" using lt by (simp add: upto_rec1)
  show ?case
    using lt Suc.hyps(1)[OF k]
    by (subst y_loop.simps) (simp add: x_loop_run up)
qed

lemma encode_run_eq:
  "encode_run img thr =
     ([0x1d, 0x76, 0x30, 0x00] @
      [xBytes (width img) smod 256, xBytes (width img) div 256,
       height img smod 256, height img div 256] @
      concat (map (\<lambda>y. map (src_byte img thr y) [0..xBytes (width img) - 1]) [0..height img - 1]),
      concat (map (\<lambda>y. concat (map (byte_reads img y) [0..xBytes (width img) - 1]))
                  [0..height img - 1]))"
  by (simp add: encode_run_def Let_def y_loop_run)


lemma xBytes_ceiling: "xBytes w = \<lceil>real_of_int w / 8\<rceil>"
proof -
  have "xBytes w = - ((- w) div 8)" by (simp add: xBytes_def paddedWidth_def ceil_div8_def)
  also have "\<dots> = - \<lfloor>real_of_int (- w) / 8\<rfloor>"
    using floor_divide_of_int_eq[of "- w" 8, where ?'a = real] by simp
  also have "\<dots> = \<lceil>real_of_int w / 8\<rceil>" by (simp add: ceiling_def)
  finally show ?thesis .
qed

lemma xBytes_bounds: "8 * xBytes w - 7 \<le> w \<and> w \<le> 8 * xBytes w"
  by (simp add: xBytes_def paddedWidth_def ceil_div8_def) presburger

lemma px_index_bound:
  assumes "0 < w" "0 \<le> y" "y < h" "0 \<le> px" "px < (w::int)"
  shows "0 \<le> (y * w + px) * 4" and "(y * w + px) * 4 + 3 < w * h * 4"
proof -
  have "0 \<le> y * w" using assms by simp
  then show "0 \<le> (y * w + px) * 4" using assms by simp
  have "(y + 1) * w \<le> h * w" using assms by (intro mult_right_mono) auto
  then have "y * w + w \<le> w * h" by (simp add: algebra_simps)
  then show "(y * w + px) * 4 + 3 < w * h * 4" using assms by simp
qed

lemma src_brightness_conformant:
  assumes "conformant img" "0 \<le> y" "y < height img" "0 \<le> px" "px < width img"
  shows "src_brightness img y px = Some (spec_channel_sum img y px)"
proof -
  let ?i = "(y * width img + px) * 4"
  have w: "0 < width img" and len: "int (length (data img)) = width img * height img * 4"
    using assms(1) by (simp_all add: conformant_def)
  have lo: "0 \<le> ?i" and hi: "?i + 3 < int (length (data img))"
    using px_index_bound[OF w assms(2-5)] len by simp_all
  have n1: "nat (?i + 1) = nat ?i + 1" and n2: "nat (?i + 2) = nat ?i + 2"
    using lo by (simp_all add: nat_add_distrib)
  show ?thesis
    using lo hi n1 n2
    by (simp add: src_brightness_def spec_channel_sum_def Let_def js_index_def js_add_def)
qed

lemma src_bit_conformant:
  assumes "conformant img" "0 \<le> y" "y < height img" "0 \<le> px"
  shows "src_bit img thr y px = spec_ink img thr y px"
proof (cases "px < width img")
  case True
  then show ?thesis
    using src_brightness_conformant[OF assms(1-4) True]
    by (simp add: src_bit_def spec_ink_def js_lt_def)
next
  case False
  then show ?thesis by (simp add: src_bit_def spec_ink_def)
qed

lemma src_byte_conformant:
  assumes "conformant img" "0 \<le> y" "y < height img" "0 \<le> x"
  shows "src_byte img thr y x = spec_byte img thr y x"
proof -
  have "map (\<lambda>k. src_bit img thr y (x * 8 + int k)) [0..<8] =
        map (\<lambda>b. spec_ink img thr y (x * 8 + int b)) [0..<8]"
  proof (rule map_cong[OF refl])
    fix k :: nat
    have "0 \<le> x * 8 + int k" using assms(4) by simp
    then show "src_bit img thr y (x * 8 + int k) = spec_ink img thr y (x * 8 + int k)"
      by (rule src_bit_conformant[OF assms(1-3)])
  qed
  then show ?thesis unfolding src_byte_def spec_byte_def by (rule arg_cong)
qed

lemma src_rows_conformant:
  assumes "conformant img"
  shows "map (\<lambda>y. map (src_byte img thr y) [0..xb - 1]) [0..height img - 1] =
         map (\<lambda>y. map (spec_byte img thr y) [0..xb - 1]) [0..height img - 1]"
proof (rule map_cong[OF refl])
  fix y assume "y \<in> set [0..height img - 1]"
  then have y: "0 \<le> y" "y < height img" by simp_all
  show "map (src_byte img thr y) [0..xb - 1] = map (spec_byte img thr y) [0..xb - 1]"
  proof (rule map_cong[OF refl])
    fix x assume "x \<in> set [0..xb - 1]"
    then have "0 \<le> x" by simp
    then show "src_byte img thr y x = spec_byte img thr y x"
      by (rule src_byte_conformant[OF assms y])
  qed
qed

lemma length_rows:
  "length (concat (map (\<lambda>y. map (f y) [0..xb - 1]) [0..h - 1])) = nat h * nat xb"
proof -
  have "map (\<lambda>y. length (map (f y) [0..xb - 1])) [0..h - 1] = map (\<lambda>y. nat xb) [0..h - 1]"
    by simp
  then show ?thesis
    by (simp add: length_concat comp_def sum_list_triv)
qed

lemma upt_0_8: "[0..<8] = [0, 1, 2, 3, 4, 5, 6, 7 :: nat]"
  by code_simp

lemma white_black_examples:
  "(thr \<le> 765 \<longrightarrow> convertCanvasToEscPos \<lparr>width = 8, height = 1, data = replicate 32 255\<rparr> thr =
      [0x1d, 0x76, 0x30, 0x00, 1, 0, 1, 0, 0x00])
   \<and> (1 \<le> thr \<longrightarrow> convertCanvasToEscPos \<lparr>width = 8, height = 1, data = replicate 32 0\<rparr> thr =
      [0x1d, 0x76, 0x30, 0x00, 1, 0, 1, 0, 0xFF])"
  by (simp add: convertCanvasToEscPos_def encode_run_eq xBytes_def paddedWidth_def ceil_div8_def
      src_byte_def src_bit_def src_brightness_def js_index_def js_add_def js_lt_def
      smod_int_alt_def upt_0_8 Let_def)


lemma conformant_layout:
  assumes "conformant img"
  shows "convertCanvasToEscPos img thr = spec_raster img thr
       \<and> length (convertCanvasToEscPos img thr) =
           8 + nat (height img) * nat (spec_widthBytes (width img))"
proof -
  have xb: "xBytes (width img) = spec_widthBytes (width img)"
    by (simp add: xBytes_ceiling spec_widthBytes_def)
  have w: "0 < width img" and h: "0 < height img" using assms by (simp_all add: conformant_def)
  have nn: "0 \<le> xBytes (width img)" using xBytes_bounds[of "width img"] w by linarith
  have sm: "xBytes (width img) smod 256 = xBytes (width img) mod 256"
    using nn by (simp add: smod_int_alt_def sgn_if)
  have sh: "height img smod 256 = height img mod 256"
    using h by (simp add: smod_int_alt_def sgn_if)
  have eq: "convertCanvasToEscPos img thr = spec_raster img thr"
    unfolding convertCanvasToEscPos_def encode_run_eq spec_raster_def Let_def fst_conv
      src_rows_conformant[OF assms] xb[symmetric] sm sh ..
  have "length (convertCanvasToEscPos img thr) = 8 + nat (height img) * nat (xBytes (width img))"
    unfolding convertCanvasToEscPos_def encode_run_eq fst_conv by (simp add: length_rows)
  with eq xb show ?thesis by simp
qed


lemma nth_concat_uniform:
  "\<forall>xs \<in> set xss. length xs = n \<Longrightarrow> i < length xss \<Longrightarrow> j < n \<Longrightarrow>
     concat xss ! (i * n + j) = xss ! i ! j"
proof (induction xss arbitrary: i)
  case Nil
  then show ?case by simp
next
  case (Cons xs xss)
  show ?case
  proof (cases i)
    case 0
    then show ?thesis using Cons.prems by (simp add: nth_append)
  next
    case (Suc i')
    have "concat (xs # xss) ! (i * n + j) = concat xss ! (i' * n + j)"
      using Cons.prems Suc by (simp add: nth_append)
    also have "\<dots> = xss ! i' ! j" using Cons.IH[of i'] Cons.prems Suc by simp
    finally show ?thesis using Suc by simp
  qed
qed

lemma rows_nth:
  assumes "0 \<le> y" "y < h" "0 \<le> x" "x < xb"
  shows "concat (map (\<lambda>y. map (f y) [0..xb - 1]) [0..h - 1]) ! nat (y * xb + x) = f y x"
proof -
  let ?xss = "map (\<lambda>y. map (f y) [0..xb - 1]) [0..h - 1]"
  have len: "\<forall>xs \<in> set ?xss. length xs = nat xb" by auto
  have i: "nat y < length ?xss" using assms by simp
  have j: "nat x < nat xb" using assms by simp
  have idx: "nat (y * xb + x) = nat y * nat xb + nat x"
    using assms by (simp add: nat_add_distrib nat_mult_distrib)
  have "concat ?xss ! (nat y * nat xb + nat x) = ?xss ! nat y ! nat x"
    by (rule nth_concat_uniform[OF len i j])
  also have "\<dots> = f y x" using assms by (simp add: nth_upto)
  finally show ?thesis using idx by simp
qed

lemma output_nth:
  assumes "0 \<le> y" "y < height img" "0 \<le> x" "x < xBytes (width img)"
  shows "convertCanvasToEscPos img thr ! (8 + nat (y * xBytes (width img) + x)) = src_byte img thr y x"
  unfolding convertCanvasToEscPos_def encode_run_eq fst_conv
  using rows_nth[OF assms, of "src_byte img thr"]
  by (simp add: nth_append)

lemma output_pixel_bit:
  assumes "0 \<le> y" "y < height img" "0 \<le> px" "px < 8 * xBytes (width img)"
  shows "bit (convertCanvasToEscPos img thr ! (8 + nat (y * xBytes (width img) + px div 8)))
             (7 - nat (px mod 8)) \<longleftrightarrow> src_bit img thr y px"
proof -
  have x: "0 \<le> px div 8" "px div 8 < xBytes (width img)" using assms by simp_all
  have m: "nat (px mod 8) < 8" by simp
  have "int (7 - (7 - nat (px mod 8))) = px mod 8" using m by simp
  then have bk: "px div 8 * 8 + int (7 - (7 - nat (px mod 8))) = px" by simp
  have lt8: "7 - nat (px mod 8) < 8" by arith
  show ?thesis
    unfolding output_nth[OF assms(1,2) x] bit_src_byte bk using lt8 by simp
qed

lemma js_index_with_alpha:
  assumes "i mod 4 \<noteq> 3"
  shows "js_index (with_alpha f xs) i = js_index xs i"
proof (cases "0 \<le> i \<and> i < int (length xs)")
  case True
  then have n: "nat i < length xs" by linarith
  have "nat i mod 4 \<noteq> 3"
  proof
    assume "nat i mod 4 = 3"
    then have "int (nat i mod 4) = 3" by simp
    then have "i mod 4 = 3" using True by (simp add: zmod_int)
    with assms show False by simp
  qed
  then show ?thesis using True n by (simp add: js_index_def with_alpha_def)
next
  case False
  then show ?thesis by (auto simp: js_index_def with_alpha_def)
qed

lemma src_brightness_with_alpha:
  "src_brightness (img\<lparr>data := with_alpha f (data img)\<rparr>) y px = src_brightness img y px"
proof -
  let ?i = "(y * width img + px) * 4"
  have "\<And>k::int. (k * 4) mod 4 \<noteq> 3 \<and> (k * 4 + 1) mod 4 \<noteq> 3 \<and> (k * 4 + 2) mod 4 \<noteq> 3"
    by presburger
  then have "?i mod 4 \<noteq> 3" "(?i + 1) mod 4 \<noteq> 3" "(?i + 2) mod 4 \<noteq> 3" by blast+
  then show ?thesis
    by (simp add: src_brightness_def Let_def js_index_with_alpha)
qed

lemma src_byte_with_alpha:
  "src_byte (img\<lparr>data := with_alpha f (data img)\<rparr>) thr = src_byte img thr"
  by (intro ext) (simp add: src_byte_def src_bit_def src_brightness_with_alpha)

lemma convert_with_alpha:
  "convertCanvasToEscPos (img\<lparr>data := with_alpha f (data img)\<rparr>) thr =
   convertCanvasToEscPos img thr"
  by (simp add: convertCanvasToEscPos_def encode_run_eq src_byte_with_alpha)

lemma sample_conformant: "conformant sample_img"
  by (simp add: sample_img_def conformant_def)

lemma pixel_reads_eq:
  "pixel_reads img thr =
     concat (map (\<lambda>y. concat (map (byte_reads img y) [0..xBytes (width img) - 1]))
                 [0..height img - 1])"
  by (simp add: pixel_reads_def encode_run_eq)

lemma pixel_reads_shape:
  assumes "i \<in> set (pixel_reads img thr)"
  shows "\<exists>y px c. 0 \<le> y \<and> y < height img \<and> 0 \<le> px \<and> px < width img \<and> 0 \<le> c \<and> c \<le> 2
            \<and> i = (y * width img + px) * 4 + c"
proof -
  from assms obtain y x k where y: "0 \<le> y" "y < height img" and x: "0 \<le> x"
    and k: "k < (8::nat)" and i: "i \<in> set (src_reads img y (x * 8 + int k))"
    unfolding pixel_reads_eq byte_reads_def by auto
  let ?px = "x * 8 + int k"
  have lt: "?px < width img" using i by (auto simp: src_reads_def split: if_splits)
  have ge: "0 \<le> ?px" using x by simp
  from i lt have "i = (y * width img + ?px) * 4 + 0 \<or> i = (y * width img + ?px) * 4 + 1
      \<or> i = (y * width img + ?px) * 4 + 2"
    by (auto simp: src_reads_def Let_def)
  then obtain c where "0 \<le> c" "c \<le> 2" "i = (y * width img + ?px) * 4 + c" by fastforce
  with y lt ge show ?thesis by blast
qed

lemma pixel_reads_in_range:
  assumes "conformant img" "i \<in> set (pixel_reads img thr)"
  shows "0 \<le> i \<and> i < int (length (data img))"
proof -
  from pixel_reads_shape[OF assms(2)] obtain y px c where
    b: "0 \<le> y" "y < height img" "0 \<le> px" "px < width img" and c: "0 \<le> c" "c \<le> 2"
    and i: "i = (y * width img + px) * 4 + c" by blast
  have w: "0 < width img" and len: "int (length (data img)) = width img * height img * 4"
    using assms(1) by (simp_all add: conformant_def)
  show ?thesis using px_index_bound[OF w b] c i len by simp
qed

lemma sample_reads: "pixel_reads sample_img 382 = [0, 1, 2, 4, 5, 6, 8, 9, 10, 12, 13, 14, 16, 17, 18, 20, 21, 22]"
  by code_simp

lemma encoder_prefix:
  "take 8 (convertCanvasToEscPos img thr) =
     [0x1d, 0x76, 0x30, 0x00,
      xBytes (width img) smod 256, xBytes (width img) div 256,
      height img smod 256, height img div 256]"
  by (simp add: convertCanvasToEscPos_def encode_run_eq)

lemma encoder_length:
  "length (convertCanvasToEscPos img thr) = 8 + nat (height img) * nat (xBytes (width img))"
  by (simp add: convertCanvasToEscPos_def encode_run_eq length_rows)

section \<open>Claims about the raster encoder\<close>

text \<open>
  Claim C4. For every conformant pixel buffer (\<open>width > 0\<close>, \<open>height > 0\<close>,
  \<open>data.length = width * height * 4\<close>) and every threshold, the encoder returns exactly
  the 4-byte raster header, the four size bytes (\<open>widthBytes % 256\<close>,
  \<open>floor(widthBytes / 256)\<close>, \<open>height % 256\<close>, \<open>floor(height / 256)\<close>) and then
  \<open>height * widthBytes\<close> data bytes, each packing eight pixels most-significant bit
  first. In particular, encoded with the default threshold 382 (no threshold passed, as
  \<open>image\<close> calls the encoder), the all-white 8x1 buffer gives header, size fields and the
  single data byte \<open>0x00\<close>, and the all-black one header, size fields and \<open>0xFF\<close>. The
  same holds of the all-white buffer for every threshold up to 765 and of the all-black
  one for every threshold from 1 on.
\<close>

theorem encoder_output_layout:
  "(conformant img \<longrightarrow>
      convertCanvasToEscPos img thr = spec_raster img thr
      \<and> length (convertCanvasToEscPos img thr) =
          8 + nat (height img) * nat (spec_widthBytes (width img)))
   \<and> convertCanvasToEscPos \<lparr>width = 8, height = 1, data = replicate 32 255\<rparr> default_threshold =
        [0x1d, 0x76, 0x30, 0x00, 1, 0, 1, 0, 0x00]
   \<and> convertCanvasToEscPos \<lparr>width = 8, height = 1, data = replicate 32 0\<rparr> default_threshold =
        [0x1d, 0x76, 0x30, 0x00, 1, 0, 1, 0, 0xFF]
   \<and> (thr \<le> 765 \<longrightarrow>
        convertCanvasToEscPos \<lparr>width = 8, height = 1, data = replicate 32 255\<rparr> thr =
          [0x1d, 0x76, 0x30, 0x00, 1, 0, 1, 0, 0x00])
   \<and> (1 \<le> thr \<longrightarrow>
        convertCanvasToEscPos \<lparr>width = 8, height = 1, data = replicate 32 0\<rparr> thr =
          [0x1d, 0x76, 0x30, 0x00, 1, 0, 1, 0, 0xFF])"
proof -
  have "default_threshold \<le> 765" "1 \<le> default_threshold"
    by (simp_all add: default_threshold_def)
  then show ?thesis
    using conformant_layout[of img thr] white_black_examples[of thr]
      white_black_examples[of default_threshold]
    by blast
qed

text \<open>
  The theorem at the all-white buffer and the default threshold: the buffer is conformant,
  so the specification's layout of it is header, size fields and \<open>0x00\<close>; and 382 lies
  in both ranges.
\<close>

theorem encoder_output_layout_witness:
  "conformant \<lparr>width = 8, height = 1, data = replicate 32 255\<rparr>
   \<and> default_threshold \<le> 765 \<and> 1 \<le> default_threshold
   \<and> spec_raster \<lparr>width = 8, height = 1, data = replicate 32 255\<rparr> default_threshold =
        [0x1d, 0x76, 0x30, 0x00, 1, 0, 1, 0, 0x00]
   \<and> length (convertCanvasToEscPos \<lparr>width = 8, height = 1, data = replicate 32 255\<rparr>
        default_threshold) = 9
   \<and> convertCanvasToEscPos \<lparr>width = 8, height = 1, data = replicate 32 0\<rparr> default_threshold =
        [0x1d, 0x76, 0x30, 0x00, 1, 0, 1, 0, 0xFF]"
proof -
  let ?white = "\<lparr>width = 8, height = 1, data = replicate 32 255\<rparr>"
  have c: "conformant ?white" by (simp add: conformant_def)
  have t: "default_threshold \<le> 765" "1 \<le> default_threshold" by (simp_all add: default_threshold_def)
  note inst = encoder_output_layout[of ?white default_threshold]
  have "convertCanvasToEscPos ?white default_threshold = spec_raster ?white default_threshold"
    using inst c by blast
  moreover have w: "convertCanvasToEscPos ?white default_threshold =
      [0x1d, 0x76, 0x30, 0x00, 1, 0, 1, 0, 0x00]"
    using inst t by blast
  ultimately have "spec_raster ?white default_threshold = [0x1d, 0x76, 0x30, 0x00, 1, 0, 1, 0, 0x00]"
    by simp
  moreover have "length (convertCanvasToEscPos ?white default_threshold) = 9"
    using w by simp
  moreover have "convertCanvasToEscPos \<lparr>width = 8, height = 1, data = replicate 32 0\<rparr>
      default_threshold = [0x1d, 0x76, 0x30, 0x00, 1, 0, 1, 0, 0xFF]"
    using inst t by blast
  ultimately show ?thesis using c t by blast
qed

text \<open>
  Claim C5. For every conformant pixel buffer, every threshold and every pixel
  \<open>(px, y)\<close> inside the image, the output bit of that pixel (bit \<open>7 - px mod 8\<close> of
  data byte \<open>y * widthBytes + px div 8\<close>, which follows the eight header and size
  bytes) is 1 exactly when red + green + blue is strictly less than the threshold; and
  replacing the alpha values of the buffer by any others leaves the whole output unchanged.
\<close>

theorem threshold_rule:
  assumes "conformant img" "0 \<le> y" "y < height img" "0 \<le> px" "px < width img"
  shows "(bit (convertCanvasToEscPos img thr ! (8 + nat (y * xBytes (width img) + px div 8)))
              (7 - nat (px mod 8))
          \<longleftrightarrow> spec_channel_sum img y px < thr)
       \<and> convertCanvasToEscPos (img\<lparr>data := with_alpha f (data img)\<rparr>) thr =
           convertCanvasToEscPos img thr"
proof -
  have "px < 8 * xBytes (width img)" using xBytes_bounds[of "width img"] assms(5) by linarith
  then have "bit (convertCanvasToEscPos img thr ! (8 + nat (y * xBytes (width img) + px div 8)))
              (7 - nat (px mod 8)) \<longleftrightarrow> src_bit img thr y px"
    by (rule output_pixel_bit[OF assms(2-4)])
  also have "\<dots> \<longleftrightarrow> spec_channel_sum img y px < thr"
    using src_bit_conformant[OF assms(1-4)] assms(5) by (simp add: spec_ink_def)
  finally show ?thesis by (simp add: convert_with_alpha)
qed

text \<open>
  The theorem on a 3x2 image at threshold 382: the pixel with channel sum 382 (equal to
  the threshold) is white, the pixel with sum 381 is black, and setting every alpha
  value to 77 changes nothing.
\<close>

theorem threshold_rule_witness:
  "conformant sample_img
   \<and> spec_channel_sum sample_img 0 2 = 382 \<and> \<not> bit (convertCanvasToEscPos sample_img 382 ! 8) 5
   \<and> spec_channel_sum sample_img 1 0 = 381 \<and> bit (convertCanvasToEscPos sample_img 382 ! 9) 7
   \<and> convertCanvasToEscPos (sample_img\<lparr>data := with_alpha (\<lambda>i. 77) (data sample_img)\<rparr>) 382 =
       convertCanvasToEscPos sample_img 382"
proof -
  have s1: "spec_channel_sum sample_img 0 2 = 382" and s2: "spec_channel_sum sample_img 1 0 = 381"
    by (simp_all add: sample_img_def spec_channel_sum_def)
  have xb: "xBytes 3 = 1"
    by (simp add: xBytes_def paddedWidth_def ceil_div8_def)
  have d: "width sample_img = 3" "height sample_img = 2" by (simp_all add: sample_img_def)
  show ?thesis
    using threshold_rule[OF sample_conformant, of 0 2 382 "\<lambda>i. 77"]
          threshold_rule[OF sample_conformant, of 1 0 382 "\<lambda>i. 77"]
          sample_conformant s1 s2
    by (simp add: xb d)
qed

text \<open>
  Claim C6. For every conformant pixel buffer the encoder's \<open>xBytes\<close> is
  \<open>ceil(width / 8)\<close> (38 for width 300, 32 for 256, 27 for 210); every padding position
  \<open>width \<le> pixelX < 8 * xBytes\<close> of every row has output bit 0; and every index at which
  the encoder reads \<open>pixels\<close> is a red, green or blue index of a pixel inside the image,
  so it lies in \<open>[0, width * height * 4)\<close>.
\<close>

theorem padding_never_read:
  assumes "conformant img"
  shows "xBytes (width img) = \<lceil>real_of_int (width img) / 8\<rceil>
       \<and> xBytes 300 = 38 \<and> xBytes 256 = 32 \<and> xBytes 210 = 27
       \<and> (\<forall>y px. 0 \<le> y \<and> y < height img \<and> width img \<le> px \<and> px < 8 * xBytes (width img) \<longrightarrow>
             \<not> bit (convertCanvasToEscPos img thr ! (8 + nat (y * xBytes (width img) + px div 8)))
                    (7 - nat (px mod 8)))
       \<and> (\<forall>i \<in> set (pixel_reads img thr).
             0 \<le> i \<and> i < width img * height img * 4
             \<and> (\<exists>y px c. 0 \<le> y \<and> y < height img \<and> 0 \<le> px \<and> px < width img \<and> 0 \<le> c \<and> c \<le> 2
                          \<and> i = (y * width img + px) * 4 + c))"
proof -
  have w: "0 < width img" and len: "int (length (data img)) = width img * height img * 4"
    using assms by (simp_all add: conformant_def)
  have ex: "xBytes 300 = 38 \<and> xBytes 256 = 32 \<and> xBytes 210 = 27"
    by (simp add: xBytes_def paddedWidth_def ceil_div8_def)
  have pad: "\<not> bit (convertCanvasToEscPos img thr ! (8 + nat (y * xBytes (width img) + px div 8)))
                    (7 - nat (px mod 8))"
    if "0 \<le> y \<and> y < height img \<and> width img \<le> px \<and> px < 8 * xBytes (width img)" for y px
  proof -
    have "0 \<le> px" using that w by linarith
    then have "bit (convertCanvasToEscPos img thr ! (8 + nat (y * xBytes (width img) + px div 8)))
                    (7 - nat (px mod 8)) \<longleftrightarrow> src_bit img thr y px"
      using that by (intro output_pixel_bit) simp_all
    then show ?thesis using that by (simp add: src_bit_def)
  qed
  have rd: "0 \<le> i \<and> i < width img * height img * 4
             \<and> (\<exists>y px c. 0 \<le> y \<and> y < height img \<and> 0 \<le> px \<and> px < width img \<and> 0 \<le> c \<and> c \<le> 2
                          \<and> i = (y * width img + px) * 4 + c)"
    if "i \<in> set (pixel_reads img thr)" for i
    using pixel_reads_in_range[OF assms that] pixel_reads_shape[OF that] len by simp
  show ?thesis using xBytes_ceiling ex pad rd by blast
qed

text \<open>
  The theorem on the 3x2 image: one byte per row, the padding bit of column 3 in row 1 is
  0, the encoder makes eighteen reads, and the last of them, at index 22, lies below 24.
\<close>

theorem padding_never_read_witness:
  "conformant sample_img \<and> xBytes (width sample_img) = 1
   \<and> \<not> bit (convertCanvasToEscPos sample_img 382 ! 9) 4
   \<and> pixel_reads sample_img 382 =
       [0, 1, 2, 4, 5, 6, 8, 9, 10, 12, 13, 14, 16, 17, 18, 20, 21, 22]
   \<and> (0::int) \<le> 22 \<and> 22 < width sample_img * height sample_img * 4"
proof -
  have d: "width sample_img = 3" "height sample_img = 2" by (simp_all add: sample_img_def)
  have xb: "xBytes 3 = 1" by (simp add: xBytes_def paddedWidth_def ceil_div8_def)
  note inst = padding_never_read[OF sample_conformant, of 382]
  have p: "\<forall>y px. 0 \<le> y \<and> y < height sample_img \<and> width sample_img \<le> px
              \<and> px < 8 * xBytes (width sample_img) \<longrightarrow>
             \<not> bit (convertCanvasToEscPos sample_img 382 !
                      (8 + nat (y * xBytes (width sample_img) + px div 8))) (7 - nat (px mod 8))"
    using inst by blast
  have b: "\<not> bit (convertCanvasToEscPos sample_img 382 ! 9) 4"
    using p[rule_format, of 1 3] by (simp add: d xb)
  have r: "\<forall>i \<in> set (pixel_reads sample_img 382).
             0 \<le> i \<and> i < width sample_img * height sample_img * 4"
    using inst by blast
  have "(22::int) \<in> set (pixel_reads sample_img 382)" by (simp add: sample_reads)
  with r have "(0::int) \<le> 22 \<and> 22 < width sample_img * height sample_img * 4" by blast
  then show ?thesis using sample_conformant b by (simp add: d xb sample_reads)
qed

text \<open>
  Claim C7, as amended. The encoder validates nothing and raises no error: for every
  input, conformant or not, it returns the header, the four size values
  \<open>xBytes % 256\<close>, \<open>floor(xBytes / 256)\<close>, \<open>height % 256\<close>, \<open>floor(height / 256)\<close>
  as computed (a dimension above 65535 leaves a high value above 255), and
  \<open>max(height, 0) * max(xBytes, 0)\<close> data bytes.
\<close>

theorem encoder_no_validation:
  "take 8 (convertCanvasToEscPos img thr) =
     [0x1d, 0x76, 0x30, 0x00,
      xBytes (width img) smod 256, xBytes (width img) div 256,
      height img smod 256, height img div 256]
   \<and> length (convertCanvasToEscPos img thr) = 8 + nat (height img) * nat (xBytes (width img))"
  using encoder_prefix encoder_length by blast

text \<open>
  Claim C7 as it is written fails: a buffer of width 0 is not conformant, yet the encoder
  returns the eight header and size bytes instead of failing; and a 1x65536 image is
  encoded to 65544 values, the high size value being 256, instead of failing.
\<close>

theorem encoder_validation_counterexample:
  "\<not> conformant \<lparr>width = 0, height = 1, data = []\<rparr>
   \<and> convertCanvasToEscPos \<lparr>width = 0, height = 1, data = []\<rparr> 382 =
       [0x1d, 0x76, 0x30, 0x00, 0, 0, 1, 0]
   \<and> take 8 (convertCanvasToEscPos \<lparr>width = 1, height = 65536, data = replicate 262144 255\<rparr> 382) =
       [0x1d, 0x76, 0x30, 0x00, 1, 0, 0, 256]
   \<and> length (convertCanvasToEscPos \<lparr>width = 1, height = 65536, data = replicate 262144 255\<rparr> 382) =
       8 + 65536"
proof -
  have xb: "xBytes 1 = 1" "xBytes 0 = 0" by (simp_all add: xBytes_def paddedWidth_def ceil_div8_def)
  have a: "convertCanvasToEscPos \<lparr>width = 0, height = 1, data = []\<rparr> 382 =
       [0x1d, 0x76, 0x30, 0x00, 0, 0, 1, 0]"
    by (simp add: convertCanvasToEscPos_def encode_run_eq xb smod_int_alt_def)
  show ?thesis
    by (simp add: a encoder_prefix encoder_length xb conformant_def smod_int_alt_def)
qed


section \<open>Lemmas about the printer class\<close>













lemma scan_step:
  "scan net port (this, tr) =
     (if port \<le> 9130 then
        (if is_match (net (tr @ [probe port])) then (True, this, tr @ [probe port])
         else scan net (port + 1) (this, tr @ [probe port]))
      else (False, this, tr))"
  by (subst scan.simps)
     (simp add: fetch_def is_match_def probe_def health_url_def Let_def
           split: outcome.splits option.splits sum.splits)

lemma scan_spec:
  "port \<le> 9131 \<Longrightarrow>
   \<exists>k found. scan net port (this, tr) = (found, this, tr @ map probe [port..<port + k])
     \<and> port + k \<le> 9131
     \<and> (\<forall>j<k. is_match (net (tr @ map probe [port..<port + Suc j])) \<longleftrightarrow> (found \<and> Suc j = k))
     \<and> (found \<longrightarrow> 0 < k) \<and> (\<not> found \<longrightarrow> port + k = 9131)"
proof (induction "9131 - port" arbitrary: port tr)
  case 0
  then have "port = 9131" by simp
  then have "scan net port (this, tr) = (False, this, tr @ map probe [port..<port + 0])"
    by (subst scan_step) simp
  then show ?case using \<open>port = 9131\<close> by (intro exI[of _ 0] exI[of _ False]) simp
next
  case (Suc n)
  then have le: "port \<le> 9130" and n: "n = 9131 - (port + 1)" and le': "port + 1 \<le> 9131"
    by simp_all
  show ?case
  proof (cases "is_match (net (tr @ [probe port]))")
    case True
    then have "scan net port (this, tr) = (True, this, tr @ map probe [port..<port + 1])"
      using le by (subst scan_step) simp
    then show ?thesis using True le by (intro exI[of _ 1] exI[of _ True]) simp
  next
    case False
    from Suc.hyps(1)[OF n le', of "tr @ [probe port]"] obtain k found where
      run: "scan net (port + 1) (this, tr @ [probe port]) =
              (found, this, (tr @ [probe port]) @ map probe [port + 1..<port + 1 + k])"
      and bound: "port + 1 + k \<le> 9131"
      and hits: "\<forall>j<k. is_match (net ((tr @ [probe port]) @ map probe [port + 1..<port + 1 + Suc j]))
                   \<longleftrightarrow> (found \<and> Suc j = k)"
      and pos: "found \<longrightarrow> 0 < k" and full: "\<not> found \<longrightarrow> port + 1 + k = 9131"
      by blast
    have up: "\<And>m. [port..<port + Suc m] = port # [port + 1..<port + 1 + m]"
      by (simp add: upt_conv_Cons)
    have tr_eq: "\<And>m. tr @ map probe [port..<port + Suc m] =
        (tr @ [probe port]) @ map probe [port + 1..<port + 1 + m]"
      by (simp add: upt_conv_Cons del: upt_Suc)
    have "scan net port (this, tr) = scan net (port + 1) (this, tr @ [probe port])"
      using le False by (subst scan_step) simp
    also have "\<dots> = (found, this, (tr @ [probe port]) @ map probe [port + 1..<port + 1 + k])"
      by (rule run)
    finally have "scan net port (this, tr) = (found, this, tr @ map probe [port..<port + Suc k])"
      unfolding tr_eq .
    moreover have "port + Suc k \<le> 9131" using bound by simp
    moreover have "\<forall>j<Suc k. is_match (net (tr @ map probe [port..<port + Suc j]))
                   \<longleftrightarrow> (found \<and> Suc j = Suc k)"
    proof (intro allI impI)
      fix j assume j: "j < Suc k"
      show "is_match (net (tr @ map probe [port..<port + Suc j])) \<longleftrightarrow> (found \<and> Suc j = Suc k)"
      proof (cases j)
        case 0
        have "tr @ map probe [port..<port + Suc 0] = tr @ [probe port]" by simp
        then show ?thesis using 0 False pos by auto
      next
        case (Suc j')
        then have "j' < k" using j by simp
        then have "is_match (net (tr @ map probe [port..<port + Suc (Suc j')])) \<longleftrightarrow>
            (found \<and> Suc j' = k)"
          unfolding tr_eq using hits by blast
        then show ?thesis using Suc by simp
      qed
    qed
    moreover have "found \<longrightarrow> 0 < Suc k" by simp
    moreover have "\<not> found \<longrightarrow> port + Suc k = 9131" using full by simp
    ultimately show ?thesis by blast
  qed
qed


lemma probe_simps:
  "probe 9123 = Get ''http://localhost:9123/health''"
  "probe 9124 = Get ''http://localhost:9124/health''"
  "probe 9125 = Get ''http://localhost:9125/health''"
  "probe 9126 = Get ''http://localhost:9126/health''"
  "probe 9127 = Get ''http://localhost:9127/health''"
  "probe 9128 = Get ''http://localhost:9128/health''"
  "probe 9129 = Get ''http://localhost:9129/health''"
  "probe 9130 = Get ''http://localhost:9130/health''"
  by (simp_all add: probe_def health_url_def decimal.simps)

lemma upt_9123:
  "[9123..<9131] = [9123, 9124, 9125, 9126, 9127, 9128, 9129, 9130 :: nat]"
  "[9123..<9127] = [9123, 9124, 9125, 9126 :: nat]"
  by (simp_all add: upt_rec)

lemma findDriver_run:
  "\<exists>pre k found this'.
      findDriver net this tr = (found, this', tr @ pre @ map probe [9123..<9123 + k])
      \<and> k \<le> 8
      \<and> pre = (if truthy (driverApi this)
                then [Get (template (driverApi this) @ ''/health'')] else [])
      \<and> (k = 0 \<longleftrightarrow> truthy (driverApi this)
            \<and> (\<exists>res. net (tr @ [Get (template (driverApi this) @ ''/health'')]) = Resolved res
                       \<and> ok res))
      \<and> (k = 0 \<longrightarrow> found)
      \<and> (\<forall>j<k. is_match (net (tr @ pre @ map probe [9123..<9123 + Suc j])) \<longleftrightarrow> (found \<and> Suc j = k))
      \<and> (\<not> found \<longrightarrow> k = 8)
      \<and> (this' = this \<or> this' = this\<lparr>driverApi := None\<rparr>)"
proof -
  let ?ping = "Get (template (driverApi this) @ ''/health'')"
  let ?pre = "if truthy (driverApi this) then [?ping] else []"
  let ?live = "truthy (driverApi this) \<and> (\<exists>res. net (tr @ [?ping]) = Resolved res \<and> ok res)"
  have via_scan: ?thesis
    if run: "findDriver net this tr = scan net 9123 (that, tr @ ?pre)"
      and dead: "\<not> ?live"
      and st: "that = this \<or> that = this\<lparr>driverApi := None\<rparr>" for that
  proof -
    from scan_spec[of 9123 net that "tr @ ?pre"] obtain k found where
      s: "scan net 9123 (that, tr @ ?pre) = (found, that, (tr @ ?pre) @ map probe [9123..<9123 + k])"
      and b: "9123 + k \<le> 9131"
      and hits: "\<forall>j<k. is_match (net ((tr @ ?pre) @ map probe [9123..<9123 + Suc j]))
                   \<longleftrightarrow> (found \<and> Suc j = k)"
      and pos: "found \<longrightarrow> 0 < k"
      and full: "\<not> found \<longrightarrow> 9123 + k = 9131"
      by auto
    have r: "findDriver net this tr = (found, that, tr @ ?pre @ map probe [9123..<9123 + k])"
      using run s by simp
    have k8: "k \<le> 8" using b by simp
    have kpos: "0 < k" using pos full by (cases found) auto
    have k0: "k = 0 \<longleftrightarrow> ?live" using kpos dead by simp
    have k0f: "k = 0 \<longrightarrow> found" using kpos by simp
    have h: "\<forall>j<k. is_match (net (tr @ ?pre @ map probe [9123..<9123 + Suc j]))
                   \<longleftrightarrow> (found \<and> Suc j = k)"
      using hits by simp
    have f: "\<not> found \<longrightarrow> k = 8" using full by simp
    show ?thesis
      using r k8 k0 k0f h f st
      by (intro exI[of _ ?pre] exI[of _ k] exI[of _ found] exI[of _ that]) blast
  qed
  show ?thesis
  proof (cases "truthy (driverApi this)")
    case False
    then have r: "findDriver net this tr = scan net 9123 (this, tr @ ?pre)"
      by (simp add: findDriver_def)
    have d: "\<not> ?live" using False by simp
    show ?thesis by (rule via_scan[OF r d]) simp
  next
    case True
    show ?thesis
    proof (cases "net (tr @ [?ping])")
      case Rejected
      then have r: "findDriver net this tr = scan net 9123 (this\<lparr>driverApi := None\<rparr>, tr @ ?pre)"
        using True by (simp add: findDriver_def fetch_def)
      have d: "\<not> ?live" using Rejected by simp
      show ?thesis by (rule via_scan[OF r d]) simp
    next
      case (Resolved res)
      show ?thesis
      proof (cases "ok res")
        case False
        then have r: "findDriver net this tr = scan net 9123 (this, tr @ ?pre)"
          using True Resolved by (simp add: findDriver_def fetch_def)
        have d: "\<not> ?live" using Resolved False by simp
        show ?thesis by (rule via_scan[OF r d]) simp
      next
        case ok: True
        then have r: "findDriver net this tr = (True, this, tr @ ?pre @ map probe [9123..<9123 + 0])"
          using True Resolved by (simp add: findDriver_def fetch_def)
        have live: ?live using True Resolved ok by simp
        show ?thesis
          using r live
          by (intro exI[of _ ?pre] exI[of _ 0] exI[of _ True] exI[of _ this]) simp
      qed
    qed
  qed
qed

lemma findDriver_cached_up:
  "findDriver net_up cached9123 [] = (True, cached9123, [Get ''http://localhost:9123/health''])"
  by (simp add: findDriver_def cached9123_def constructor_def truthy_def template_def fetch_def
      net_up_def)

lemma findDriver_cached_down:
  "findDriver net_down cached9123 [] =
     (False, cached9123\<lparr>driverApi := None\<rparr>,
      Get ''http://localhost:9123/health'' # map probe [9123..<9131])"
  by (simp add: findDriver_def cached9123_def constructor_def truthy_def template_def fetch_def
      scan_step net_down_def is_match_def upt_9123)

lemma findDriver_down:
  "findDriver net_down (constructor default_width) [] =
     (False, constructor default_width, map probe [9123..<9131])"
  by (simp add: findDriver_def constructor_def truthy_def scan_step net_down_def is_match_def
      upt_9123)

lemma findDriver_9126:
  "findDriver net9126 (constructor default_width) [] =
     (True, constructor default_width, map probe [9123..<9127])"
  by (simp add: findDriver_def constructor_def truthy_def scan_step net9126_def is_match_def
      upt_9123 probe_simps)

lemma findDriver_9126_again:
  "findDriver net9126 (constructor default_width) (map probe [9123..<9127]) =
     (True, constructor default_width, map probe [9123..<9127] @ map probe [9123..<9127])"
  by (simp add: findDriver_def constructor_def truthy_def scan_step net9126_def is_match_def
      upt_9123 probe_simps)

lemma findDriver_unavailable:
  "findDriver net_unavailable cached9123 [] =
     (False, cached9123, Get ''http://localhost:9123/health'' # map probe [9123..<9131])"
  by (simp add: findDriver_def cached9123_def constructor_def truthy_def template_def fetch_def
      scan_step net_unavailable_def is_match_def upt_9123)

lemma findDriver_moved:
  "findDriver net9126 cached9123 [] =
     (True, cached9123\<lparr>driverApi := None\<rparr>,
      Get ''http://localhost:9123/health'' # map probe [9123..<9127])"
  by (simp add: findDriver_def cached9123_def constructor_def truthy_def template_def fetch_def
      scan_step net9126_def is_match_def upt_9123 probe_simps)

lemma findDriver_state:
  "findDriver net this tr = (found, this', tr') \<Longrightarrow>
     this' = this \<or> this' = this\<lparr>driverApi := None\<rparr>"
  using findDriver_run[of net this tr] by auto


lemma findDriver_buffer:
  "findDriver net this tr = (found, this', tr') \<Longrightarrow> buffer this' = buffer this"
  using findDriver_state[of net this tr found this' tr'] by auto

lemma print_unfold:
  assumes d: "findDriver net this tr = (found, this1, tr1)"
  shows "print h net printerName this tr =
     (if \<not> found
      then (Inl (Error ''Cannot connect to Printer Driver. Please run the application.''), this1, tr1)
      else
        (let (name, tr2) =
               (if \<not> truthy printerName then
                  (let (printers, tr2) = getPrinters net (driverApi this1) tr1
                   in case printers of
                        Inl e \<Rightarrow> (Inl e, tr2)
                      | Inr ps \<Rightarrow> (first_printer_name h ps, tr2))
                else (Inr (map_option JStr printerName), tr1))
         in case name of
              Inl e \<Rightarrow> (Inl e, this1, tr2)
            | Inr pn \<Rightarrow>
                (case encodeURIComponent h pn of
                   Inl e \<Rightarrow> (Inl e, this1, tr2)
                 | Inr encodedName \<Rightarrow>
                     (let tr3 = tr2 @ [Post (template (driverApi this1) @ ''/print?printer='' @ encodedName)
                                            (getBuffer this1)]
                      in case net tr3 of
                           Rejected \<Rightarrow> (Inl FetchRejected, this1, tr3)
                         | Resolved res \<Rightarrow>
                             if \<not> ok res then (Inl (Error ''Driver returned error''), this1, tr3)
                             else (Inr (PrintResponse True), clear this1, tr3)))))"
  by (simp add: print_def d Let_def fetch_def split: prod.splits sum.splits)

lemma print_outcome:
  assumes d: "findDriver net this tr = (found, this1, tr1)"
    and p: "print h net printerName this tr = (r, this', tr')"
  shows "(\<not> found \<longrightarrow> r = Inl (Error ''Cannot connect to Printer Driver. Please run the application.''))
       \<and> ((\<exists>e. r = Inl e) \<longrightarrow> buffer this' = buffer this)
       \<and> ((\<exists>v. r = Inr v) \<longrightarrow>
            buffer this' = [] \<and> (\<exists>url. last tr' = Post url (getBuffer this))
            \<and> (\<exists>res. net tr' = Resolved res \<and> ok res))"
proof -
  have b: "buffer this1 = buffer this" using findDriver_buffer[OF d] .
  then have g: "getBuffer this1 = getBuffer this" by (simp add: getBuffer_def)
  show ?thesis
    using p b g unfolding print_unfold[OF d]
    by (auto simp: Let_def clear_def split: if_splits prod.splits sum.splits outcome.splits)
qed

lemma print_down:
  "print sample_host net_down (Some ''P'') (loaded (constructor default_width)) [] =
     (Inl (Error ''Cannot connect to Printer Driver. Please run the application.''),
      loaded (constructor default_width), map probe [9123..<9131])"
proof -
  have fd: "findDriver net_down (loaded (constructor default_width)) [] =
          (False, loaded (constructor default_width), map probe [9123..<9131])"
    by (simp add: findDriver_def loaded_def constructor_def truthy_def scan_step net_down_def
        is_match_def upt_9123)
  show ?thesis unfolding print_unfold[OF fd] by simp
qed

lemma print_up:
  "print sample_host net_up (Some ''P'') (loaded cached9123) [] =
     (Inr (PrintResponse True), cached9123,
      [Get ''http://localhost:9123/health'',
       Post ''http://localhost:9123/print?printer=P'' [0x1b, 0x40, 44, 0]])"
proof -
  have fd: "findDriver net_up (loaded cached9123) [] =
          (True, loaded cached9123, [Get ''http://localhost:9123/health''])"
    by (simp add: findDriver_def loaded_def cached9123_def constructor_def truthy_def
        template_def fetch_def net_up_def)
  show ?thesis
    unfolding print_unfold[OF fd]
    by (simp add: truthy_def sample_host_def Let_def getBuffer_def loaded_def
        cached9123_def constructor_def template_def net_up_def clear_def)
qed

lemma print_rejected:
  "print sample_host net9126 (Some ''P'') (loaded (constructor default_width)) [] =
     (Inl FetchRejected, loaded (constructor default_width),
      map probe [9123..<9127] @ [Post ''null/print?printer=P'' [0x1b, 0x40, 44, 0]])"
proof -
  have fd: "findDriver net9126 (loaded (constructor default_width)) [] =
          (True, loaded (constructor default_width), map probe [9123..<9127])"
    by (simp add: findDriver_def loaded_def constructor_def truthy_def scan_step net9126_def
        is_match_def upt_9123 probe_simps)
  show ?thesis
    unfolding print_unfold[OF fd]
    by (simp add: truthy_def sample_host_def Let_def getBuffer_def loaded_def
        constructor_def template_def net9126_def upt_9123 probe_simps)
qed

lemma getPrinters_list:
  "getPrinters net_printers (Some ''http://localhost:9123'') [] =
     (Inr (JArr [JObj [(''name'', JStr ''thermal printer''), (''status_text'', JStr ''Ready'')]]),
      [Get ''http://localhost:9123/printers''])"
  by (simp add: getPrinters_def fetch_printers_def fetch_def truthy_def template_def net_printers_def)

lemma getPrinters_down:
  "getPrinters net_down None [] = (Inr (JArr []), map probe [9123..<9131])"
  using findDriver_down by (simp add: getPrinters_def truthy_def)


section \<open>Claims about discovery\<close>

text \<open>
  Claim C1 says that a scan which finds the driver stores its endpoint in \<open>driverApi\<close>
  and that a second call therefore issues one request only. The code returns \<open>true\<close> on
  the match without any assignment: after \<open>findDriver\<close>, \<open>driverApi\<close> is what it was
  before the call or \<open>null\<close>, for every network and every instance. With a network where
  only port 9126 answers as the driver, a fresh instance finds it with four probes, keeps
  \<open>driverApi = null\<close>, and a second call on the same instance issues the same four
  probes again.
\<close>

theorem findDriver_does_not_cache:
  "(driverApi (fst (snd (findDriver net this tr))) = driverApi this
      \<or> driverApi (fst (snd (findDriver net this tr))) = None)
   \<and> findDriver net9126 (constructor default_width) [] =
       (True, \<lparr>driverApi = None, printerWidth = 384, buffer = []\<rparr>,
        [Get ''http://localhost:9123/health'', Get ''http://localhost:9124/health'',
         Get ''http://localhost:9125/health'', Get ''http://localhost:9126/health''])
   \<and> findDriver net9126 \<lparr>driverApi = None, printerWidth = 384, buffer = []\<rparr>
        [Get ''http://localhost:9123/health'', Get ''http://localhost:9124/health'',
         Get ''http://localhost:9125/health'', Get ''http://localhost:9126/health''] =
       (True, \<lparr>driverApi = None, printerWidth = 384, buffer = []\<rparr>,
        [Get ''http://localhost:9123/health'', Get ''http://localhost:9124/health'',
         Get ''http://localhost:9125/health'', Get ''http://localhost:9126/health'',
         Get ''http://localhost:9123/health'', Get ''http://localhost:9124/health'',
         Get ''http://localhost:9125/health'', Get ''http://localhost:9126/health''])"
proof -
  obtain found this' tr' where r: "findDriver net this tr = (found, this', tr')"
    by (cases "findDriver net this tr") auto
  from findDriver_state[OF r] have "driverApi this' = driverApi this \<or> driverApi this' = None"
    by auto
  then show ?thesis
    using r findDriver_9126 findDriver_9126_again
    by (simp add: upt_9123 probe_simps constructor_def default_width_def)
qed

text \<open>
  Claim C2. For every instance, network and request history, the requests of
  \<open>findDriver\<close> are: the liveness probe, exactly when \<open>driverApi\<close> is truthy, and then
  the probes of ports 9123, 9124, ... in ascending order, \<open>k \<le> 8\<close> of them. No port is
  probed (\<open>k = 0\<close>) exactly when there is a liveness probe and it is answered \<open>ok\<close>, and
  then the result is \<open>true\<close>. Otherwise the scan runs: every probe but the last got an
  answer that is not a valid match (a rejected probe, by error or timeout, is never a
  match) and the scan went on after it; the last probe is a valid match exactly when
  \<open>findDriver\<close> returns \<open>true\<close>, so the scan stops at the first match; and when
  \<open>findDriver\<close> returns \<open>false\<close>, all 8 ports have been probed.
\<close>

theorem scan_order:
  "\<not> is_match Rejected \<and>
   (\<exists>pre k found this'.
      findDriver net this tr = (found, this', tr @ pre @ map probe [9123..<9123 + k])
      \<and> k \<le> 8
      \<and> pre = (if truthy (driverApi this)
                then [Get (template (driverApi this) @ ''/health'')] else [])
      \<and> (k = 0 \<longleftrightarrow> truthy (driverApi this)
            \<and> (\<exists>res. net (tr @ [Get (template (driverApi this) @ ''/health'')]) = Resolved res
                       \<and> ok res))
      \<and> (k = 0 \<longrightarrow> found)
      \<and> (\<forall>j<k. is_match (net (tr @ pre @ map probe [9123..<9123 + Suc j])) \<longleftrightarrow> (found \<and> Suc j = k))
      \<and> (\<not> found \<longrightarrow> k = 8))"
proof -
  have m: "\<not> is_match Rejected" by (simp add: is_match_def)
  from findDriver_run[of net this tr] obtain pre k found this' where
    "findDriver net this tr = (found, this', tr @ pre @ map probe [9123..<9123 + k])"
    "k \<le> 8"
    "pre = (if truthy (driverApi this)
            then [Get (template (driverApi this) @ ''/health'')] else [])"
    "k = 0 \<longleftrightarrow> truthy (driverApi this)
       \<and> (\<exists>res. net (tr @ [Get (template (driverApi this) @ ''/health'')]) = Resolved res
                  \<and> ok res)"
    "k = 0 \<longrightarrow> found"
    "\<forall>j<k. is_match (net (tr @ pre @ map probe [9123..<9123 + Suc j])) \<longleftrightarrow> (found \<and> Suc j = k)"
    "\<not> found \<longrightarrow> k = 8"
    by (elim exE conjE)
  then show ?thesis
    using m by (intro conjI exI[of _ pre] exI[of _ k] exI[of _ found] exI[of _ this']) 
qed

text \<open>
  The theorem on a network where nothing answers: a fresh instance makes eight probes in
  ascending order and gets \<open>false\<close>, the fourth probe being no match; an instance with a
  cached endpoint makes the liveness probe and the same eight probes, and gets \<open>false\<close>.
  Where only port 9126 answers, the scan stops there. Where the cached endpoint answers
  \<open>ok\<close>, the liveness probe is the only request.
\<close>

theorem scan_order_witness:
  "findDriver net_down (constructor default_width) [] =
     (False, constructor default_width,
      [Get ''http://localhost:9123/health'', Get ''http://localhost:9124/health'',
       Get ''http://localhost:9125/health'', Get ''http://localhost:9126/health'',
       Get ''http://localhost:9127/health'', Get ''http://localhost:9128/health'',
       Get ''http://localhost:9129/health'', Get ''http://localhost:9130/health''])
   \<and> \<not> is_match (net_down (map probe [9123..<9123 + Suc 3]))
   \<and> snd (snd (findDriver net_down cached9123 [])) =
      [Get ''http://localhost:9123/health'',
       Get ''http://localhost:9123/health'', Get ''http://localhost:9124/health'',
       Get ''http://localhost:9125/health'', Get ''http://localhost:9126/health'',
       Get ''http://localhost:9127/health'', Get ''http://localhost:9128/health'',
       Get ''http://localhost:9129/health'', Get ''http://localhost:9130/health'']
   \<and> \<not> fst (findDriver net_down cached9123 [])
   \<and> findDriver net9126 (constructor default_width) [] =
     (True, constructor default_width,
      [Get ''http://localhost:9123/health'', Get ''http://localhost:9124/health'',
       Get ''http://localhost:9125/health'', Get ''http://localhost:9126/health''])
   \<and> findDriver net_up cached9123 [] =
     (True, cached9123, [Get ''http://localhost:9123/health''])"
proof -
  from scan_order[of net_down "constructor default_width" "[]"] obtain pre k found this' where
    run: "findDriver net_down (constructor default_width) [] =
            (found, this', [] @ pre @ map probe [9123..<9123 + k])"
    and pre: "pre = (if truthy (driverApi (constructor default_width))
                then [Get (template (driverApi (constructor default_width)) @ ''/health'')] else [])"
    and hits: "\<forall>j<k. is_match (net_down ([] @ pre @ map probe [9123..<9123 + Suc j]))
                 \<longleftrightarrow> (found \<and> Suc j = k)"
    and full: "\<not> found \<longrightarrow> k = 8"
    by blast
  from run findDriver_down have nf: "\<not> found" by simp
  from nf full have k: "k = 8" by simp
  have "pre = []" using pre by (simp add: constructor_def truthy_def)
  moreover have "3 < k" using k by simp
  ultimately have "\<not> is_match (net_down (map probe [9123..<9123 + Suc 3]))"
    using hits[rule_format, of 3] nf by simp
  then show ?thesis
    using findDriver_down findDriver_9126 findDriver_cached_up findDriver_cached_down
    by (simp add: upt_9123 probe_simps)
qed

text \<open>
  Claim C3, as amended. For every instance holding a truthy \<open>driverApi\<close>: if the liveness
  probe is rejected (a network error, or a timeout that the platform reports), the
  instance's \<open>driverApi\<close> is set to \<open>null\<close> and the scan starts from that state; if the
  probe is answered with a non-success status, the scan starts with \<open>driverApi\<close>
  untouched; in both cases \<open>findDriver\<close> returns \<open>true\<close> exactly when the last probe of
  the rescan is a valid match.
\<close>

theorem liveness_failure_rescans:
  "truthy (driverApi this) \<longrightarrow>
     (net (tr @ [Get (template (driverApi this) @ ''/health'')]) = Rejected \<longrightarrow>
        findDriver net this tr =
          scan net 9123 (this\<lparr>driverApi := None\<rparr>, tr @ [Get (template (driverApi this) @ ''/health'')]))
     \<and> (\<forall>res. net (tr @ [Get (template (driverApi this) @ ''/health'')]) = Resolved res \<and> \<not> ok res \<longrightarrow>
        findDriver net this tr =
          scan net 9123 (this, tr @ [Get (template (driverApi this) @ ''/health'')]))
     \<and> ((\<forall>res. net (tr @ [Get (template (driverApi this) @ ''/health'')]) = Resolved res \<longrightarrow> \<not> ok res) \<longrightarrow>
        (fst (findDriver net this tr) \<longleftrightarrow> is_match (net (snd (snd (findDriver net this tr))))))"
proof (intro impI conjI allI)
  let ?ping = "Get (template (driverApi this) @ ''/health'')"
  assume t: "truthy (driverApi this)"
  show "findDriver net this tr = scan net 9123 (this\<lparr>driverApi := None\<rparr>, tr @ [?ping])"
    if "net (tr @ [?ping]) = Rejected"
    using t that by (simp add: findDriver_def fetch_def)
  show "findDriver net this tr = scan net 9123 (this, tr @ [?ping])"
    if "net (tr @ [?ping]) = Resolved res \<and> \<not> ok res" for res
    using t that by (simp add: findDriver_def fetch_def)
  show "fst (findDriver net this tr) \<longleftrightarrow> is_match (net (snd (snd (findDriver net this tr))))"
    if fail: "\<forall>res. net (tr @ [?ping]) = Resolved res \<longrightarrow> \<not> ok res"
  proof -
    obtain that where run: "findDriver net this tr = scan net 9123 (that, tr @ [?ping])"
      using t fail by (cases "net (tr @ [?ping])") (auto simp: findDriver_def fetch_def)
    from scan_spec[of 9123 net that "tr @ [?ping]"] obtain k found where
      s: "scan net 9123 (that, tr @ [?ping]) =
            (found, that, (tr @ [?ping]) @ map probe [9123..<9123 + k])"
      and hits: "\<forall>j<k. is_match (net ((tr @ [?ping]) @ map probe [9123..<9123 + Suc j]))
                   \<longleftrightarrow> (found \<and> Suc j = k)"
      and pos: "found \<longrightarrow> 0 < k" and full: "\<not> found \<longrightarrow> 9123 + k = 9131"
      by auto
    have "0 < k" using pos full by (cases found) auto
    then obtain j where j: "k = Suc j" by (cases k) auto
    then have "is_match (net ((tr @ [?ping]) @ map probe [9123..<9123 + k])) \<longleftrightarrow> found"
      using hits[rule_format, of j] by simp
    then show ?thesis using run s by simp
  qed
qed

text \<open>
  The theorem on an instance caching port 9123 while the driver now answers on port 9126
  only: the liveness probe is rejected, the rescan starts with \<open>driverApi = null\<close>, and
  \<open>findDriver\<close> returns \<open>true\<close>.
\<close>

theorem liveness_failure_rescans_witness:
  "truthy (driverApi cached9123)
   \<and> net9126 ([] @ [Get (template (driverApi cached9123) @ ''/health'')]) = Rejected
   \<and> findDriver net9126 cached9123 [] =
       scan net9126 9123 (cached9123\<lparr>driverApi := None\<rparr>, [Get ''http://localhost:9123/health''])
   \<and> fst (findDriver net9126 cached9123 [])
   \<and> is_match (net9126 (snd (snd (findDriver net9126 cached9123 []))))"
proof -
  have t: "truthy (driverApi cached9123)"
    by (simp add: cached9123_def truthy_def)
  have u: "template (driverApi cached9123) @ ''/health'' = ''http://localhost:9123/health''"
    by (simp add: cached9123_def template_def)
  have rej: "net9126 ([] @ [Get (template (driverApi cached9123) @ ''/health'')]) = Rejected"
    by (simp add: u net9126_def)
  have ok: "\<forall>res. net9126 ([] @ [Get (template (driverApi cached9123) @ ''/health'')]) = Resolved res
              \<longrightarrow> \<not> ok res"
    using rej by simp
  note inst = liveness_failure_rescans[of cached9123 net9126 "[]"]
  have a: "findDriver net9126 cached9123 [] =
       scan net9126 9123 (cached9123\<lparr>driverApi := None\<rparr>, [Get ''http://localhost:9123/health''])"
    using inst t rej by (simp add: u)
  have b: "fst (findDriver net9126 cached9123 []) \<longleftrightarrow>
       is_match (net9126 (snd (snd (findDriver net9126 cached9123 []))))"
    using inst t ok by blast
  have "fst (findDriver net9126 cached9123 [])" by (simp add: findDriver_moved)
  with a b t rej show ?thesis by simp
qed

text \<open>
  Claim C3 as it is written fails for the third failure kind: when the cached endpoint
  answers the liveness probe with a non-success status and the rescan finds nothing,
  \<open>findDriver\<close> returns \<open>false\<close> and the instance still holds the cached endpoint.
\<close>

theorem liveness_status_counterexample:
  "truthy (driverApi cached9123)
   \<and> net_unavailable [Get ''http://localhost:9123/health''] = Resolved (Response False None)
   \<and> findDriver net_unavailable cached9123 [] =
       (False, cached9123,
        [Get ''http://localhost:9123/health'',
         Get ''http://localhost:9123/health'', Get ''http://localhost:9124/health'',
         Get ''http://localhost:9125/health'', Get ''http://localhost:9126/health'',
         Get ''http://localhost:9127/health'', Get ''http://localhost:9128/health'',
         Get ''http://localhost:9129/health'', Get ''http://localhost:9130/health''])
   \<and> driverApi cached9123 = Some ''http://localhost:9123''"
  using findDriver_unavailable
  by (simp add: upt_9123 probe_simps cached9123_def truthy_def net_unavailable_def)

section \<open>Claims about the command builder\<close>




section \<open>Claims about printing and the printer list\<close>

text \<open>
  Claim C8. For every instance, buffer, network and printer name, with
  \<open>(r, this', tr')\<close> the result of \<open>print\<close>: when discovery returns \<open>false\<close>, \<open>print\<close>
  throws the connection error; whenever \<open>print\<close> throws, the buffer is exactly what it
  was; when \<open>print\<close> returns, the buffer is empty, the last request is the \<open>POST\<close> of the
  buffer's bytes and its answer is a success; and when the last request is rejected or
  answered with a non-success status, \<open>print\<close> throws and the buffer is what it was.
\<close>

theorem print_delivery:
  assumes "print h net printerName this tr = (r, this', tr')"
  shows "(\<not> fst (findDriver net this tr) \<longrightarrow>
            r = Inl (Error ''Cannot connect to Printer Driver. Please run the application.''))
       \<and> ((\<exists>e. r = Inl e) \<longrightarrow> buffer this' = buffer this)
       \<and> ((\<exists>v. r = Inr v) \<longrightarrow>
            buffer this' = [] \<and> (\<exists>url. last tr' = Post url (getBuffer this))
            \<and> (\<exists>res. net tr' = Resolved res \<and> ok res))
       \<and> (net tr' = Rejected \<or> (\<exists>res. net tr' = Resolved res \<and> \<not> ok res) \<longrightarrow>
            (\<exists>e. r = Inl e) \<and> buffer this' = buffer this)"
proof -
  obtain found this1 tr1 where d: "findDriver net this tr = (found, this1, tr1)"
    by (cases "findDriver net this tr") auto
  note o = print_outcome[OF d assms]
  have "(\<exists>e. r = Inl e) \<and> buffer this' = buffer this"
    if "net tr' = Rejected \<or> (\<exists>res. net tr' = Resolved res \<and> \<not> ok res)"
  proof -
    have "\<not> (\<exists>v. r = Inr v)" using o that by auto
    then have "\<exists>e. r = Inl e" by (cases r) auto
    then show ?thesis using o by blast
  qed
  then show ?thesis using o d by simp
qed

text \<open>
  The theorem on three runs: a delivery that succeeds and clears the buffer, a discovery
  that fails, and a delivery whose \<open>POST\<close> is rejected; the last two leave the buffer.
\<close>

theorem print_delivery_witness:
  "print sample_host net_up (Some ''P'') (loaded cached9123) [] =
     (Inr (PrintResponse True), cached9123,
      [Get ''http://localhost:9123/health'',
       Post ''http://localhost:9123/print?printer=P'' [0x1b, 0x40, 44, 0]])
   \<and> buffer (loaded cached9123) = [Some 0x1b, Some 0x40, Some 300, None]
   \<and> buffer cached9123 = []
   \<and> print sample_host net_down (Some ''P'') (loaded (constructor default_width)) [] =
       (Inl (Error ''Cannot connect to Printer Driver. Please run the application.''),
        loaded (constructor default_width), map probe [9123..<9131])
   \<and> \<not> fst (findDriver net_down (loaded (constructor default_width)) [])
   \<and> print sample_host net9126 (Some ''P'') (loaded (constructor default_width)) [] =
       (Inl FetchRejected, loaded (constructor default_width),
        map probe [9123..<9127] @ [Post ''null/print?printer=P'' [0x1b, 0x40, 44, 0]])
   \<and> net9126 (map probe [9123..<9127] @ [Post ''null/print?printer=P'' [0x1b, 0x40, 44, 0]]) = Rejected
   \<and> buffer (loaded (constructor default_width)) = [Some 0x1b, Some 0x40, Some 300, None]"
proof -
  have up: "buffer cached9123 = []"
    using print_delivery[OF print_up] by simp
  have nf: "\<not> fst (findDriver net_down (loaded (constructor default_width)) [])"
    by (simp add: findDriver_def loaded_def constructor_def truthy_def scan_step net_down_def
        is_match_def upt_9123)
  have rej: "net9126 (map probe [9123..<9127] @ [Post ''null/print?printer=P'' [0x1b, 0x40, 44, 0]])
      = Rejected"
    by (simp add: net9126_def)
  have kept: "buffer (loaded (constructor default_width)) = buffer (loaded (constructor default_width))"
    using print_delivery[OF print_rejected] rej by simp
  show ?thesis
    using up nf rej print_up print_down print_rejected
    by (simp add: loaded_def)
qed

text \<open>
  Claim C10, as amended. \<open>getPrinters\<close> never throws. It returns the empty array when
  auto-discovery fails, when the \<open>/printers\<close> request is rejected and when its body does
  not parse; and when the request is answered with a success status and a body that
  parses, it returns the parsed body as it is, whether or not that body is an array.
\<close>

theorem getPrinters_never_throws:
  "\<exists>v tr'. getPrinters net overrideUrl tr = (Inr v, tr')
     \<and> (\<not> truthy overrideUrl \<and> \<not> fst (findDriver net (constructor default_width) tr) \<longrightarrow> v = JArr [])
     \<and> (net tr' = Rejected \<longrightarrow> v = JArr [])
     \<and> (\<forall>res. net tr' = Resolved res \<and> body res = None \<longrightarrow> v = JArr [])
     \<and> (\<forall>res d. (truthy overrideUrl \<or> fst (findDriver net (constructor default_width) tr))
           \<and> net tr' = Resolved res \<and> ok res \<and> body res = Some d \<longrightarrow> v = d)"
  by (cases "findDriver net (constructor default_width) tr")
     (auto simp: getPrinters_def fetch_printers_def fetch_def Let_def
           split: prod.splits outcome.splits option.splits)

text \<open>
  The theorem where nothing answers (discovery fails, the result is \<open>[]\<close>) and where the
  endpoint is given and answers with a printer list.
\<close>

theorem getPrinters_never_throws_witness:
  "getPrinters net_down None [] = (Inr (JArr []), map probe [9123..<9131])
   \<and> \<not> truthy None \<and> \<not> fst (findDriver net_down (constructor default_width) [])
   \<and> getPrinters net_printers (Some ''http://localhost:9123'') [] =
     (Inr (JArr [JObj [(''name'', JStr ''thermal printer''), (''status_text'', JStr ''Ready'')]]),
      [Get ''http://localhost:9123/printers''])
   \<and> truthy (Some ''http://localhost:9123'')
   \<and> net_printers [Get ''http://localhost:9123/printers''] =
       Resolved (Response True
         (Some (JArr [JObj [(''name'', JStr ''thermal printer''), (''status_text'', JStr ''Ready'')]])))"
proof -
  from getPrinters_never_throws[of net_down None "[]"] obtain v tr' where
    g: "getPrinters net_down None [] = (Inr v, tr')"
    and e: "\<not> truthy None \<and> \<not> fst (findDriver net_down (constructor default_width) []) \<longrightarrow> v = JArr []"
    by blast
  have nf: "\<not> truthy None \<and> \<not> fst (findDriver net_down (constructor default_width) [])"
    using findDriver_down by (simp add: truthy_def)
  with e have "v = JArr []" by blast
  with g getPrinters_down have "getPrinters net_down None [] = (Inr (JArr []), map probe [9123..<9131])"
    by simp
  then show ?thesis using nf getPrinters_list by (simp add: truthy_def net_printers_def)
qed

text \<open>
  Claim C10 as it is written fails: a \<open>/printers\<close> answer with a success status whose
  body is a JSON object (here the list wrapped in an object) is returned to the caller as
  it is, and it is not an array.
\<close>

theorem getPrinters_array_counterexample:
  "getPrinters net_wrapped (Some ''http://localhost:9123'') [] =
     (Inr (JObj [(''printers'', JArr [])]), [Get ''http://localhost:9123/printers''])
   \<and> net_wrapped [Get ''http://localhost:9123/printers''] =
       Resolved (Response True (Some (JObj [(''printers'', JArr [])])))
   \<and> (\<forall>xs. JObj [(''printers'', JArr [])] \<noteq> JArr xs)"
  by (simp add: getPrinters_def fetch_printers_def fetch_def truthy_def template_def
      net_wrapped_def)

end
